theory Spec2Isabelle
  imports Main "HOL-Library.Word" "HOL-Library.Multiset"
begin

section \<open>Go values shared by the repository package\<close>

text \<open>
  A Go \<^verbatim>\<open>string\<close> is a sequence of bytes; it is modelled by \<^typ>\<open>string\<close>, whose
  characters are bytes. \<^verbatim>\<open>int64\<close> is a 64-bit word read in two's complement
  (\<^const>\<open>sint\<close>); Go's \<^verbatim>\<open>int\<close> parameters, on which no arithmetic is done, are
  integers.
\<close>

type_synonym int64 = "64 word"

text \<open>
  Go errors. The sentinels \<^verbatim>\<open>sql.ErrNoRows\<close> and \<^verbatim>\<open>redis.Nil\<close>, an error reported by
  the PostgreSQL server (\<^verbatim>\<open>*pq.Error\<close>, with its SQLSTATE code), a transport failure of
  either client with its message, the errors of \<^verbatim>\<open>encoding/json\<close>, and the two shapes
  \<^verbatim>\<open>fmt.Errorf\<close> builds in this package: a plain message (\<open>ErrorString\<close>) and a
  message that wraps a cause with \<^verbatim>\<open>%w\<close> (\<open>Wrap\<close>).
\<close>

datatype go_error =
    ErrNoRows
  | RedisNil
  | PqError string
  | ConnError string
  | SyntaxError
  | UnmarshalTypeError string
  | ErrorString string
  | Wrap string go_error

text \<open>\<^verbatim>\<open>errors.Unwrap\<close>, and \<^verbatim>\<open>errors.Is\<close> walking the chain of wrapped causes.\<close>

fun Unwrap :: "go_error \<Rightarrow> go_error option" where
  "Unwrap (Wrap m e) = Some e"
| "Unwrap e = None"

fun errors_Is :: "go_error \<Rightarrow> go_error \<Rightarrow> bool" where
  "errors_Is (Wrap m e) t = (Wrap m e = t \<or> errors_Is e t)"
| "errors_Is e t = (e = t)"

subsection \<open>Decimal formatting (\<^verbatim>\<open>%d\<close>, \<^verbatim>\<open>strconv.AppendInt\<close>)\<close>

definition digit_char :: "nat \<Rightarrow> char" where
  "digit_char d = char_of (48 + d)"

function digits :: "nat \<Rightarrow> string" where
  "digits n = (if n < 10 then [digit_char n] else digits (n div 10) @ [digit_char (n mod 10)])"
  by pat_completeness auto
termination
  by (relation "measure id") auto

definition FormatInt :: "int \<Rightarrow> string" where
  "FormatInt i = (if i < 0 then CHR ''-'' # digits (nat (- i)) else digits (nat i))"

text \<open>
  The reading of a decimal numeral, used to say what "decimal representation" means:
  the value of a digit string, most significant digit first.
\<close>

definition digit_val :: "char \<Rightarrow> nat" where
  "digit_val c = of_char c - 48"

definition is_digit :: "char \<Rightarrow> bool" where
  "is_digit c = (48 \<le> (of_char c :: nat) \<and> (of_char c :: nat) \<le> 57)"

definition dec_val :: "string \<Rightarrow> nat" where
  "dec_val s = foldl (\<lambda>a c. 10 * a + digit_val c) 0 s"

subsection \<open>Cache keys (redis.go, \<^verbatim>\<open>GetUserCacheKey\<close>)\<close>

text \<open>\<^verbatim>\<open>return fmt.Sprintf("user:%d", id)\<close>\<close>

definition GetUserCacheKey :: "int64 \<Rightarrow> string" where
  "GetUserCacheKey uid = ''user:'' @ FormatInt (sint uid)"

section \<open>UTF-8 (\<^verbatim>\<open>unicode/utf8\<close>)\<close>

text \<open>
  Runes are natural numbers. \<open>DecodeRune\<close> follows \<^verbatim>\<open>utf8.DecodeRuneInString\<close>: it
  returns the rune at the front of the string and the number of bytes it takes, and
  \<open>(RuneError, 1)\<close> when the front is not a valid encoding (a stray continuation
  byte, an overlong or truncated sequence, a surrogate, a value above U+10FFFF).
  The masks \<^verbatim>\<open>&0x1F\<close>, \<^verbatim>\<open>&0x0F\<close>, \<^verbatim>\<open>&0x07\<close>, \<^verbatim>\<open>&0x3F\<close> are \<open>mod\<close>, the shifts are
  multiplications.
\<close>

definition RuneError :: nat where
  "RuneError = 65533"

definition byte :: "char \<Rightarrow> nat" where
  "byte c = of_char c"

definition cont :: "char \<Rightarrow> bool" where
  "cont c = (128 \<le> byte c \<and> byte c \<le> 191)"

text \<open>The range \<^verbatim>\<open>acceptRanges\<close> allows for the second byte, by the first byte.\<close>

definition accept_lo :: "nat \<Rightarrow> nat" where
  "accept_lo b0 = (if b0 = 224 then 160 else if b0 = 240 then 144 else 128)"

definition accept_hi :: "nat \<Rightarrow> nat" where
  "accept_hi b0 = (if b0 = 237 then 159 else if b0 = 244 then 143 else 191)"

fun DecodeRune :: "string \<Rightarrow> nat \<times> nat" where
  "DecodeRune [] = (RuneError, 0)"
| "DecodeRune (c0 # cs) =
    (let b0 = byte c0 in
     if b0 < 128 then (b0, 1)
     else if b0 < 194 \<or> 244 < b0 then (RuneError, 1)
     else (case cs of
        [] \<Rightarrow> (RuneError, 1)
      | c1 # cs1 \<Rightarrow>
          if byte c1 < accept_lo b0 \<or> accept_hi b0 < byte c1 then (RuneError, 1)
          else if b0 < 224 then ((b0 mod 32) * 64 + byte c1 mod 64, 2)
          else (case cs1 of
             [] \<Rightarrow> (RuneError, 1)
           | c2 # cs2 \<Rightarrow>
               if \<not> cont c2 then (RuneError, 1)
               else if b0 < 240 then
                 ((b0 mod 16) * 4096 + (byte c1 mod 64) * 64 + byte c2 mod 64, 3)
               else (case cs2 of
                  [] \<Rightarrow> (RuneError, 1)
                | c3 # cs3 \<Rightarrow>
                    if \<not> cont c3 then (RuneError, 1)
                    else ((b0 mod 8) * 262144 + (byte c1 mod 64) * 4096
                          + (byte c2 mod 64) * 64 + byte c3 mod 64, 4)))))"

text \<open>\<^verbatim>\<open>utf8.AppendRune\<close>: surrogates and values above U+10FFFF are written as U+FFFD.\<close>

definition EncodeRune :: "nat \<Rightarrow> string" where
  "EncodeRune r =
    (if r < 128 then [char_of r]
     else if r < 2048 then [char_of (192 + r div 64), char_of (128 + r mod 64)]
     else if 1114111 < r \<or> (55296 \<le> r \<and> r \<le> 57343) then
       [char_of (239 :: nat), char_of (191 :: nat), char_of (189 :: nat)]
     else if r < 65536 then
       [char_of (224 + r div 4096), char_of (128 + (r div 64) mod 64), char_of (128 + r mod 64)]
     else
       [char_of (240 + r div 262144), char_of (128 + (r div 4096) mod 64),
        char_of (128 + (r div 64) mod 64), char_of (128 + r mod 64)])"

text \<open>
  The library routines this package calls walk a string rune by rune: at each position they
  decode the rune at the front and advance by its size. \<open>runes\<close> is that walk: the
  decoded rune, its size and its bytes, position after position.
\<close>

function runes :: "string \<Rightarrow> (nat \<times> nat \<times> string) list" where
  "runes [] = []"
| "runes (c # cs) =
    (let (r, n) = DecodeRune (c # cs)
     in (r, n, take n (c # cs)) # runes (drop (n - 1) cs))"
  by pat_completeness auto
termination
  by (relation "measure length") auto

text \<open>\<^verbatim>\<open>utf8.ValidString\<close>: no position decodes to \<open>(RuneError, 1)\<close>.\<close>

definition bad_rune :: "nat \<times> nat \<times> string \<Rightarrow> bool" where
  "bad_rune x = (case x of (r, n, bs) \<Rightarrow> r = RuneError \<and> n = 1)"

definition ValidString :: "string \<Rightarrow> bool" where
  "ValidString s = (\<not> list_ex bad_rune (runes s))"

text \<open>
  The string with every byte that does not decode replaced by the encoding of U+FFFD
  (each rune written back by \<open>EncodeRune\<close>): what \<^verbatim>\<open>encoding/json\<close> makes of a string
  on the way out and back in.
\<close>

definition coerce_utf8 :: "string \<Rightarrow> string" where
  "coerce_utf8 s = concat (map (\<lambda>x. EncodeRune (fst x)) (runes s))"

section \<open>The user record and its JSON form (\<^verbatim>\<open>encoding/json\<close>)\<close>

text \<open>
  postgres.go, \<^verbatim>\<open>type User struct\<close>: the record the repository reads, returns and
  caches. Its JSON tags are \<^verbatim>\<open>id\<close>, \<^verbatim>\<open>username\<close>, \<^verbatim>\<open>email\<close>, \<^verbatim>\<open>created_at\<close>,
  \<^verbatim>\<open>updated_at\<close> (models.go declares the same field set and tags).
\<close>

record User =
  ID :: int64
  Username :: string
  Email :: string
  CreatedAt :: string
  UpdatedAt :: string

datatype field = F_id | F_username | F_email | F_created_at | F_updated_at

fun field_name :: "field \<Rightarrow> string" where
  "field_name F_id = ''id''"
| "field_name F_username = ''username''"
| "field_name F_email = ''email''"
| "field_name F_created_at = ''created_at''"
| "field_name F_updated_at = ''updated_at''"

definition user_fields :: "field list" where
  "user_fields = [F_id, F_username, F_email, F_created_at, F_updated_at]"

subsection \<open>Encoding\<close>

definition dquote :: char where
  "dquote = CHR 0x22"

definition bslash :: char where
  "bslash = CHR 0x5C"

definition hex_digit :: "nat \<Rightarrow> char" where
  "hex_digit n = ''0123456789abcdef'' ! n"

text \<open>\<^verbatim>\<open>htmlSafeSet\<close>: the ASCII bytes \<^verbatim>\<open>json.Marshal\<close> copies as they are.\<close>

definition htmlSafe :: "nat \<Rightarrow> bool" where
  "htmlSafe b = (32 \<le> b \<and> b < 128 \<and> b \<noteq> 34 \<and> b \<noteq> 38 \<and> b \<noteq> 60 \<and> b \<noteq> 62 \<and> b \<noteq> 92)"

text \<open>
  One step of the loop of \<^verbatim>\<open>appendString\<close> (with \<^verbatim>\<open>escapeHTML\<close>, as \<^verbatim>\<open>Marshal\<close> sets
  it): what is written for the rune at the current position. A byte that is not valid
  UTF-8 is written as the escape of U+FFFD; U+2028 and U+2029 are escaped; other runes outside
  ASCII are copied. (Backspace and form feed are written with their short escapes, as
  the current library does; older releases wrote them with four hex digits, which
  \<open>unquote\<close> below reads back to the same byte.)
\<close>

definition esc_rune :: "nat \<times> nat \<times> string \<Rightarrow> string" where
  "esc_rune x = (case x of (r, n, bs) \<Rightarrow>
     if r < 128 then
       (if htmlSafe r then bs
        else if r = 92 \<or> r = 34 then bslash # bs
        else if r = 8 then [bslash, CHR ''b'']
        else if r = 12 then [bslash, CHR ''f'']
        else if r = 10 then [bslash, CHR ''n'']
        else if r = 13 then [bslash, CHR ''r'']
        else if r = 9 then [bslash, CHR ''t'']
        else [bslash, CHR ''u'', CHR ''0'', CHR ''0'', hex_digit (r div 16), hex_digit (r mod 16)])
     else if r = RuneError \<and> n = 1 then [bslash, CHR ''u'', CHR ''f'', CHR ''f'', CHR ''f'', CHR ''d'']
     else if r = 8232 \<or> r = 8233 then
       [bslash, CHR ''u'', CHR ''2'', CHR ''0'', CHR ''2'', hex_digit (r mod 16)]
     else bs)"

definition appendString :: "string \<Rightarrow> string" where
  "appendString s = dquote # concat (map esc_rune (runes s)) @ [dquote]"

text \<open>
  The struct encoder: \<^verbatim>\<open>{\<close>, then per field its quoted name, a colon and its value,
  separated by commas, then \<^verbatim>\<open>}\<close>. \<^verbatim>\<open>Marshal\<close> has no failing case on this struct; the
  result type keeps the error \<^verbatim>\<open>SetCache\<close> tests for.
\<close>

definition field_value :: "User \<Rightarrow> field \<Rightarrow> string" where
  "field_value u f = (case f of
      F_id \<Rightarrow> FormatInt (sint (ID u))
    | F_username \<Rightarrow> appendString (Username u)
    | F_email \<Rightarrow> appendString (Email u)
    | F_created_at \<Rightarrow> appendString (CreatedAt u)
    | F_updated_at \<Rightarrow> appendString (UpdatedAt u))"

definition encode_field :: "User \<Rightarrow> field \<Rightarrow> string" where
  "encode_field u f = appendString (field_name f) @ CHR '':'' # field_value u f"

fun commas :: "string list \<Rightarrow> string" where
  "commas [] = []"
| "commas [x] = x"
| "commas (x # y # ys) = x @ CHR '','' # commas (y # ys)"

definition Marshal :: "User \<Rightarrow> go_error + string" where
  "Marshal u = Inr (CHR ''{'' # commas (map (encode_field u) user_fields) @ ''}'')"

subsection \<open>Decoding\<close>

datatype json =
    JNull
  | JBool bool
  | JNumber string
  | JString string
  | JArray "json list"
  | JObject "(string \<times> json) list"

definition is_space :: "char \<Rightarrow> bool" where
  "is_space c = (c = CHR '' '' \<or> c = CHR 0x09 \<or> c = CHR 0x0D \<or> c = CHR 0x0A)"

definition skip_ws :: "string \<Rightarrow> string" where
  "skip_ws s = dropWhile is_space s"

definition hex_val :: "char \<Rightarrow> nat option" where
  "hex_val c =
    (let b = byte c in
     if 48 \<le> b \<and> b \<le> 57 then Some (b - 48)
     else if 97 \<le> b \<and> b \<le> 102 then Some (b - 87)
     else if 65 \<le> b \<and> b \<le> 70 then Some (b - 55)
     else None)"

text \<open>\<^verbatim>\<open>getu4\<close>: the value of \<^verbatim>\<open>\uXXXX\<close> at the front of the input, if that is there.\<close>

fun getu4 :: "string \<Rightarrow> nat option" where
  "getu4 (b # u # h1 # h2 # h3 # h4 # rest) =
    (if b = bslash \<and> u = CHR ''u'' then
       (case (hex_val h1, hex_val h2, hex_val h3, hex_val h4) of
          (Some x1, Some x2, Some x3, Some x4) \<Rightarrow> Some (((x1 * 16 + x2) * 16 + x3) * 16 + x4)
        | _ \<Rightarrow> None)
     else None)"
| "getu4 s = None"

definition IsSurrogate :: "nat \<Rightarrow> bool" where
  "IsSurrogate r = (55296 \<le> r \<and> r < 57344)"

text \<open>\<^verbatim>\<open>utf16.DecodeRune\<close>, the second half absent when \<^verbatim>\<open>getu4\<close> found none.\<close>

definition utf16_DecodeRune :: "nat \<Rightarrow> nat option \<Rightarrow> nat" where
  "utf16_DecodeRune r1 r2 =
    (case r2 of
       None \<Rightarrow> RuneError
     | Some r2' \<Rightarrow>
         if 55296 \<le> r1 \<and> r1 < 56320 \<and> 56320 \<le> r2' \<and> r2' < 57344
         then (r1 - 55296) * 1024 + (r2' - 56320) + 65536
         else RuneError)"

definition simple_escape :: "char \<Rightarrow> char option" where
  "simple_escape e =
    (if e = dquote \<or> e = bslash \<or> e = CHR ''/'' then Some e
     else if e = CHR ''b'' then Some (CHR 0x08)
     else if e = CHR ''f'' then Some (CHR 0x0C)
     else if e = CHR ''n'' then Some (CHR 0x0A)
     else if e = CHR ''r'' then Some (CHR 0x0D)
     else if e = CHR ''t'' then Some (CHR 0x09)
     else None)"

fun prepend :: "string \<Rightarrow> (string \<times> string) option \<Rightarrow> (string \<times> string) option" where
  "prepend xs None = None"
| "prepend xs (Some (ys, rest)) = Some (xs @ ys, rest)"

text \<open>
  A string literal, read from just after its opening quote: the scanner's rules (no
  control character, a known escape after a backslash, four hex digits after
  \<^verbatim>\<open>\u\<close>) and \<^verbatim>\<open>unquoteBytes\<close> in one pass. The result is the decoded text and the
  input after the closing quote; \<open>None\<close> is a syntax error.
\<close>

function unquote :: "string \<Rightarrow> (string \<times> string) option" where
  "unquote [] = None"
| "unquote (c # cs) =
    (if c = dquote then Some ([], cs)
     else if c = bslash then
       (case cs of
          [] \<Rightarrow> None
        | e # es \<Rightarrow>
            if e = CHR ''u'' then
              (case getu4 (c # cs) of
                 None \<Rightarrow> None
               | Some rr \<Rightarrow>
                   if IsSurrogate rr then
                     (if utf16_DecodeRune rr (getu4 (drop 4 es)) \<noteq> RuneError
                      then prepend (EncodeRune (utf16_DecodeRune rr (getu4 (drop 4 es))))
                             (unquote (drop 10 es))
                      else prepend (EncodeRune RuneError) (unquote (drop 4 es)))
                   else prepend (EncodeRune rr) (unquote (drop 4 es)))
            else
              (case simple_escape e of
                 None \<Rightarrow> None
               | Some x \<Rightarrow> prepend [x] (unquote es)))
     else if byte c < 32 then None
     else if byte c < 128 then prepend [c] (unquote cs)
     else prepend (EncodeRune (fst (DecodeRune (c # cs))))
            (unquote (drop (snd (DecodeRune (c # cs)) - 1) cs)))"
  by pat_completeness auto
termination
  by (relation "measure length") auto

text \<open>
  A number literal: \<^verbatim>\<open>-? (0 | [1-9][0-9]*) (. [0-9]+)? ([eE] [+-]? [0-9]+)?\<close>, the
  longest one at the front of the input. The literal is kept as text.
\<close>

definition scan_int :: "string \<Rightarrow> (string \<times> string) option" where
  "scan_int s =
    (case s of
       [] \<Rightarrow> None
     | c # cs \<Rightarrow>
         if c = CHR ''0'' then Some ([c], cs)
         else if is_digit c then Some (c # takeWhile is_digit cs, dropWhile is_digit cs)
         else None)"

definition scan_frac :: "string \<Rightarrow> (string \<times> string) option" where
  "scan_frac s =
    (case s of
       [] \<Rightarrow> Some ([], s)
     | c # cs \<Rightarrow>
         if c = CHR ''.'' then
           (if takeWhile is_digit cs = [] then None
            else Some (c # takeWhile is_digit cs, dropWhile is_digit cs))
         else Some ([], s))"

definition scan_sign :: "string \<Rightarrow> string \<times> string" where
  "scan_sign s =
    (case s of
       [] \<Rightarrow> ([], s)
     | c # cs \<Rightarrow> if c = CHR ''+'' \<or> c = CHR ''-'' then ([c], cs) else ([], s))"

definition scan_exp :: "string \<Rightarrow> (string \<times> string) option" where
  "scan_exp s =
    (case s of
       [] \<Rightarrow> Some ([], s)
     | c # cs \<Rightarrow>
         if c = CHR ''e'' \<or> c = CHR ''E'' then
           (case scan_sign cs of (sg, ds) \<Rightarrow>
              if takeWhile is_digit ds = [] then None
              else Some (c # sg @ takeWhile is_digit ds, dropWhile is_digit ds))
         else Some ([], s))"

definition scan_number :: "string \<Rightarrow> (string \<times> string) option" where
  "scan_number s =
    (case (case s of [] \<Rightarrow> ([], s) | c # cs \<Rightarrow> if c = CHR ''-'' then ([c], cs) else ([], s)) of
       (sg, s1) \<Rightarrow>
         (case scan_int s1 of
            None \<Rightarrow> None
          | Some (ip, s2) \<Rightarrow>
              (case scan_frac s2 of
                 None \<Rightarrow> None
               | Some (fp, s3) \<Rightarrow>
                   (case scan_exp s3 of
                      None \<Rightarrow> None
                    | Some (ep, s4) \<Rightarrow> Some (sg @ ip @ fp @ ep, s4)))))"

text \<open>
  Values. The first argument bounds the recursion (every call reads at least one
  character, so the length of the input is enough); the second is the nesting depth,
  which the scanner limits to \<^verbatim>\<open>maxNestingDepth\<close>. \<open>None\<close> is a syntax error.
\<close>

definition maxNestingDepth :: nat where
  "maxNestingDepth = 10000"

fun parse_value :: "nat \<Rightarrow> nat \<Rightarrow> string \<Rightarrow> (json \<times> string) option"
  and parse_members :: "nat \<Rightarrow> nat \<Rightarrow> string \<Rightarrow> ((string \<times> json) list \<times> string) option"
  and parse_elems :: "nat \<Rightarrow> nat \<Rightarrow> string \<Rightarrow> (json list \<times> string) option"
where
  "parse_value 0 d s = None"
| "parse_value (Suc k) d s =
    (case skip_ws s of
       [] \<Rightarrow> None
     | c # cs \<Rightarrow>
         if c = CHR ''{'' then
           (if maxNestingDepth \<le> d then None
            else (case skip_ws cs of
               [] \<Rightarrow> None
             | x # xs \<Rightarrow>
                 if x = CHR ''}'' then Some (JObject [], xs)
                 else (case parse_members k (Suc d) (x # xs) of
                    None \<Rightarrow> None
                  | Some (kvs, r) \<Rightarrow> Some (JObject kvs, r))))
         else if c = CHR ''['' then
           (if maxNestingDepth \<le> d then None
            else (case skip_ws cs of
               [] \<Rightarrow> None
             | x # xs \<Rightarrow>
                 if x = CHR '']'' then Some (JArray [], xs)
                 else (case parse_elems k (Suc d) (x # xs) of
                    None \<Rightarrow> None
                  | Some (vs, r) \<Rightarrow> Some (JArray vs, r))))
         else if c = dquote then
           (case unquote cs of
              None \<Rightarrow> None
            | Some (str, r) \<Rightarrow> Some (JString str, r))
         else if take 4 (c # cs) = ''true'' then Some (JBool True, drop 3 cs)
         else if take 5 (c # cs) = ''false'' then Some (JBool False, drop 4 cs)
         else if take 4 (c # cs) = ''null'' then Some (JNull, drop 3 cs)
         else if c = CHR ''-'' \<or> is_digit c then
           (case scan_number (c # cs) of
              None \<Rightarrow> None
            | Some (lit, r) \<Rightarrow> Some (JNumber lit, r))
         else None)"
| "parse_members 0 d s = None"
| "parse_members (Suc k) d s =
    (case skip_ws s of
       [] \<Rightarrow> None
     | q # cs \<Rightarrow>
         if q \<noteq> dquote then None
         else (case unquote cs of
            None \<Rightarrow> None
          | Some (key, r1) \<Rightarrow>
              (case skip_ws r1 of
                 [] \<Rightarrow> None
               | col # r2 \<Rightarrow>
                   if col \<noteq> CHR '':'' then None
                   else (case parse_value k d r2 of
                      None \<Rightarrow> None
                    | Some (v, r3) \<Rightarrow>
                        (case skip_ws r3 of
                           [] \<Rightarrow> None
                         | x # r4 \<Rightarrow>
                             if x = CHR ''}'' then Some ([(key, v)], r4)
                             else if x = CHR '','' then
                               (case parse_members k d r4 of
                                  None \<Rightarrow> None
                                | Some (kvs, r5) \<Rightarrow> Some ((key, v) # kvs, r5))
                             else None)))))"
| "parse_elems 0 d s = None"
| "parse_elems (Suc k) d s =
    (case parse_value k d s of
       None \<Rightarrow> None
     | Some (v, r1) \<Rightarrow>
         (case skip_ws r1 of
            [] \<Rightarrow> None
          | x # r2 \<Rightarrow>
              if x = CHR '']'' then Some ([v], r2)
              else if x = CHR '','' then
                (case parse_elems k d r2 of
                   None \<Rightarrow> None
                 | Some (vs, r3) \<Rightarrow> Some (v # vs, r3))
              else None))"

text \<open>\<^verbatim>\<open>checkValid\<close>: one value, with white space around it and nothing else.\<close>

definition json_parse :: "string \<Rightarrow> json option" where
  "json_parse s =
    (case parse_value (Suc (length s)) 0 s of
       None \<Rightarrow> None
     | Some (v, r) \<Rightarrow> if skip_ws r = [] then Some v else None)"

text \<open>
  \<^verbatim>\<open>strconv.ParseInt(s, 10, 64)\<close>: an optional sign, then digits only, and a value
  that fits \<^verbatim>\<open>int64\<close>.
\<close>

definition ParseInt :: "string \<Rightarrow> int64 option" where
  "ParseInt s =
    (case (case s of
             [] \<Rightarrow> (False, s)
           | c # cs \<Rightarrow> if c = CHR ''-'' then (True, cs)
                      else if c = CHR ''+'' then (False, cs) else (False, s)) of
       (neg, ds) \<Rightarrow>
         if ds = [] \<or> \<not> list_all is_digit ds then None
         else if neg then
           (if dec_val ds \<le> 2 ^ 63 then Some (word_of_int (- int (dec_val ds))) else None)
         else
           (if dec_val ds < 2 ^ 63 then Some (word_of_int (int (dec_val ds))) else None))"

text \<open>
  Field lookup in \<^verbatim>\<open>decodeState.object\<close>: the exact name, and failing that the first
  field whose name is equal under Unicode simple case folding (\<^verbatim>\<open>foldName\<close>). The
  field names here are ASCII, and the only runes outside ASCII that fold to an ASCII
  letter are U+212A (to K) and U+017F (to S); every other rune outside ASCII folds to one
  outside ASCII and is left as it is, which decides the same equalities.
\<close>

definition fold_rune :: "nat \<times> nat \<times> string \<Rightarrow> string" where
  "fold_rune x = (case x of (r, n, bs) \<Rightarrow>
     if r < 128 then (if 97 \<le> r \<and> r \<le> 122 then [char_of (r - 32)] else bs)
     else if r = 8490 then ''K''
     else if r = 383 then ''S''
     else EncodeRune r)"

definition foldName :: "string \<Rightarrow> string" where
  "foldName s = concat (map fold_rune (runes s))"

definition find_field :: "string \<Rightarrow> field option" where
  "find_field key =
    (case find (\<lambda>f. field_name f = key) user_fields of
       Some f \<Rightarrow> Some f
     | None \<Rightarrow> find (\<lambda>f. foldName (field_name f) = foldName key) user_fields)"

text \<open>The word \<^verbatim>\<open>UnmarshalTypeError\<close> reports for a value that does not fit.\<close>

fun kind_of :: "json \<Rightarrow> string" where
  "kind_of JNull = ''null''"
| "kind_of (JBool b) = ''bool''"
| "kind_of (JNumber lit) = ''number''"
| "kind_of (JString str) = ''string''"
| "kind_of (JArray vs) = ''array''"
| "kind_of (JObject kvs) = ''object''"

text \<open>
  \<^verbatim>\<open>literalStore\<close> on a field of kind string and on the field of kind int64:
  \<^verbatim>\<open>null\<close> leaves the field, a value of the right kind sets it, anything else is a
  type error and leaves the field.
\<close>

definition store_string ::
  "(string \<Rightarrow> User \<Rightarrow> User) \<Rightarrow> json \<Rightarrow> User \<Rightarrow> go_error option \<times> User" where
  "store_string set_f v u =
    (case v of
       JNull \<Rightarrow> (None, u)
     | JString str \<Rightarrow> (None, set_f str u)
     | _ \<Rightarrow> (Some (UnmarshalTypeError (kind_of v)), u))"

definition store_int64 :: "json \<Rightarrow> User \<Rightarrow> go_error option \<times> User" where
  "store_int64 v u =
    (case v of
       JNull \<Rightarrow> (None, u)
     | JNumber lit \<Rightarrow>
         (case ParseInt lit of
            None \<Rightarrow> (Some (UnmarshalTypeError (''number '' @ lit)), u)
          | Some n \<Rightarrow> (None, u\<lparr>ID := n\<rparr>))
     | _ \<Rightarrow> (Some (UnmarshalTypeError (kind_of v)), u))"

fun store_field :: "field \<Rightarrow> json \<Rightarrow> User \<Rightarrow> go_error option \<times> User" where
  "store_field F_id v u = store_int64 v u"
| "store_field F_username v u = store_string (\<lambda>x w. w\<lparr>Username := x\<rparr>) v u"
| "store_field F_email v u = store_string (\<lambda>x w. w\<lparr>Email := x\<rparr>) v u"
| "store_field F_created_at v u = store_string (\<lambda>x w. w\<lparr>CreatedAt := x\<rparr>) v u"
| "store_field F_updated_at v u = store_string (\<lambda>x w. w\<lparr>UpdatedAt := x\<rparr>) v u"

text \<open>
  The members of an object, in input order: an unknown key is skipped, a later
  duplicate overwrites, and the first type error is the one reported while the
  remaining members are still stored (\<^verbatim>\<open>saveError\<close>).
\<close>

fun assign :: "(string \<times> json) list \<Rightarrow> go_error option \<times> User \<Rightarrow> go_error option \<times> User" where
  "assign [] st = st"
| "assign ((key, v) # kvs) (err, u) =
    (case find_field key of
       None \<Rightarrow> assign kvs (err, u)
     | Some f \<Rightarrow>
         (case store_field f v u of
            (e, u') \<Rightarrow> assign kvs (if err = None then e else err, u')))"

text \<open>
  \<^verbatim>\<open>json.Unmarshal(data, dest)\<close> for \<^verbatim>\<open>dest\<close> pointing to a \<^verbatim>\<open>User\<close>: the error, if
  any, and the destination afterwards. A syntax error leaves the destination untouched.
\<close>

definition Unmarshal :: "string \<Rightarrow> User \<Rightarrow> go_error option \<times> User" where
  "Unmarshal data dest =
    (case json_parse data of
       None \<Rightarrow> (Some SyntaxError, dest)
     | Some v \<Rightarrow>
         (case v of
            JObject kvs \<Rightarrow> assign kvs (None, dest)
          | JNull \<Rightarrow> (None, dest)
          | _ \<Rightarrow> (Some (UnmarshalTypeError (kind_of v)), dest)))"

section \<open>The cache layer (redis.go)\<close>

text \<open>
  The Redis server is the environment of \<^verbatim>\<open>RedisRepo\<close>. It is modelled as far as the
  calls of redis.go reach it: a map from keys to string values, each with an optional
  expiry deadline on the server's clock (milliseconds), and a connection that, on a
  given call, either delivers the command (\<open>Up\<close>) or fails with a transport error
  (\<open>Down\<close>). The server's clock at the time of the command is an argument.
\<close>

datatype link = Up | Down string

record entry =
  payload :: string
  expires :: "nat option"

type_synonym redis = "string \<rightharpoonup> entry"

text \<open>What the server holds under a key at a given time: an expired entry is absent.\<close>

definition live :: "nat \<Rightarrow> redis \<Rightarrow> string \<Rightarrow> entry option" where
  "live now store key =
    (case store key of
       None \<Rightarrow> None
     | Some en \<Rightarrow>
         (case expires en of
            None \<Rightarrow> Some en
          | Some t \<Rightarrow> if now \<le> t then Some en else None))"

text \<open>
  \<^verbatim>\<open>client.Set(ctx, key, data, expiration)\<close>. The client turns a positive duration
  (nanoseconds) into \<^verbatim>\<open>PX\<close> milliseconds or \<^verbatim>\<open>EX\<close> seconds, both at least 1, the
  duration \<^verbatim>\<open>KeepTTL = -1\<close> into \<^verbatim>\<open>KEEPTTL\<close>, and sends no expiry otherwise.
\<close>

datatype set_ttl = Persist | Px nat | Ex nat | KeepTTL

definition ttl_arg :: "int \<Rightarrow> set_ttl" where
  "ttl_arg expiration =
    (if 0 < expiration then
       (if expiration < 1000000000 \<or> expiration mod 1000000000 \<noteq> 0 then
          Px (if expiration < 1000000 then 1 else nat (expiration div 1000000))
        else Ex (nat (expiration div 1000000000)))
     else if expiration = - 1 then KeepTTL
     else Persist)"

definition deadline :: "nat \<Rightarrow> redis \<Rightarrow> string \<Rightarrow> set_ttl \<Rightarrow> nat option" where
  "deadline now store key a =
    (case a of
       Persist \<Rightarrow> None
     | Px n \<Rightarrow> Some (now + n)
     | Ex n \<Rightarrow> Some (now + 1000 * n)
     | KeepTTL \<Rightarrow> (case live now store key of None \<Rightarrow> None | Some en \<Rightarrow> expires en))"

definition client_Set ::
  "link \<Rightarrow> nat \<Rightarrow> redis \<Rightarrow> string \<Rightarrow> string \<Rightarrow> int \<Rightarrow> go_error option \<times> redis" where
  "client_Set l now store key data expiration =
    (case l of
       Down m \<Rightarrow> (Some (ConnError m), store)
     | Up \<Rightarrow>
         (None, store(key \<mapsto>
            \<lparr>payload = data, expires = deadline now store key (ttl_arg expiration)\<rparr>)))"

text \<open>\<^verbatim>\<open>client.Get(ctx, key).Bytes()\<close>: \<^verbatim>\<open>redis.Nil\<close> when the server holds nothing.\<close>

definition client_Get :: "link \<Rightarrow> nat \<Rightarrow> redis \<Rightarrow> string \<Rightarrow> go_error + string" where
  "client_Get l now store key =
    (case l of
       Down m \<Rightarrow> Inl (ConnError m)
     | Up \<Rightarrow> (case live now store key of None \<Rightarrow> Inl RedisNil | Some en \<Rightarrow> Inr (payload en)))"

text \<open>\<^verbatim>\<open>client.Del(ctx, key).Err()\<close>: the server removes the key if it is there.\<close>

definition client_Del :: "link \<Rightarrow> redis \<Rightarrow> string \<Rightarrow> go_error option \<times> redis" where
  "client_Del l store key =
    (case l of
       Down m \<Rightarrow> (Some (ConnError m), store)
     | Up \<Rightarrow> (None, store(key := None)))"

text \<open>
  \<^verbatim>\<open>RedisRepo.SetCache\<close>, for a \<^verbatim>\<open>User\<close> value: the error returned and the server's
  state afterwards.
\<close>

definition SetCache ::
  "link \<Rightarrow> nat \<Rightarrow> redis \<Rightarrow> string \<Rightarrow> User \<Rightarrow> int \<Rightarrow> go_error option \<times> redis" where
  "SetCache l now store key val expiration =
    (case Marshal val of
       Inl err \<Rightarrow> (Some (Wrap ''Failed to serialize data: '' err), store)
     | Inr data \<Rightarrow>
         (case client_Set l now store key data expiration of
            (Some err, store') \<Rightarrow> (Some (Wrap ''Failed to set cache: '' err), store')
          | (None, store') \<Rightarrow> (None, store')))"

text \<open>
  \<^verbatim>\<open>RedisRepo.GetCache\<close>, for a destination pointing to a \<^verbatim>\<open>User\<close>: the boolean and
  the error returned, and the destination afterwards.
\<close>

definition GetCache ::
  "link \<Rightarrow> nat \<Rightarrow> redis \<Rightarrow> string \<Rightarrow> User \<Rightarrow> bool \<times> go_error option \<times> User" where
  "GetCache l now store key dest =
    (case client_Get l now store key of
       Inl err \<Rightarrow>
         if err = RedisNil then (False, None, dest)
         else (False, Some (Wrap ''Failed to get cache: '' err), dest)
     | Inr data \<Rightarrow>
         (case Unmarshal data dest of
            (Some err, dest') \<Rightarrow> (False, Some (Wrap ''Failed to deserialize data: '' err), dest')
          | (None, dest') \<Rightarrow> (True, None, dest')))"

text \<open>\<^verbatim>\<open>RedisRepo.DeleteCache\<close>.\<close>

definition DeleteCache :: "link \<Rightarrow> redis \<Rightarrow> string \<Rightarrow> go_error option \<times> redis" where
  "DeleteCache l store key =
    (case client_Del l store key of
       (Some err, store') \<Rightarrow> (Some (Wrap ''Failed to delete cache: '' err), store')
     | (None, store') \<Rightarrow> (None, store'))"

section \<open>The record store (postgres.go, 001_initial_schema.sql)\<close>

text \<open>
  The PostgreSQL server is the environment of \<^verbatim>\<open>PostgresRepo\<close>. The model is the
  table \<^verbatim>\<open>users\<close> of the migration (its rows, in heap order) and its \<^verbatim>\<open>SERIAL\<close>
  sequence, with the statements of postgres.go run against them. A timestamp is
  represented by its text, which is what \<^verbatim>\<open>database/sql\<close> scans into the string
  fields of \<^verbatim>\<open>User\<close>; \<^verbatim>\<open>NOW()\<close> is the server's clock, an argument of the statements
  that read it. As for the cache, a call reaches the server or fails in transport.
\<close>

record user_row =
  uid :: int
  username :: string
  email :: string
  created_at :: string
  updated_at :: string

record db =
  rows :: "user_row list"
  seq :: int

definition scan_user :: "user_row \<Rightarrow> User" where
  "scan_user r =
    \<lparr>ID = word_of_int (uid r), Username = username r, Email = email r,
     CreatedAt = created_at r, UpdatedAt = updated_at r\<rparr>"

text \<open>
  A value bound to a \<^verbatim>\<open>VARCHAR(n)\<close> column (server encoding UTF8): text that is not
  valid UTF-8 or holds a zero byte is refused (SQLSTATE 22021); text longer than \<open>n\<close>
  characters is refused (22001) unless the excess is spaces only, which are cut off.
\<close>

definition pg_text :: "string \<Rightarrow> bool" where
  "pg_text s = (ValidString s \<and> \<not> list_ex (\<lambda>c. byte c = 0) s)"

definition is_space_rune :: "nat \<times> nat \<times> string \<Rightarrow> bool" where
  "is_space_rune x = (case x of (r, n, bs) \<Rightarrow> r = 32)"

definition rune_bytes :: "nat \<times> nat \<times> string \<Rightarrow> string" where
  "rune_bytes x = (case x of (r, n, bs) \<Rightarrow> bs)"

definition pg_varchar :: "nat \<Rightarrow> string \<Rightarrow> go_error + string" where
  "pg_varchar n s =
    (if \<not> pg_text s then Inl (PqError ''22021'')
     else if length (runes s) \<le> n then Inr s
     else if list_all is_space_rune (drop n (runes s))
       then Inr (concat (map rune_bytes (take n (runes s))))
     else Inl (PqError ''22001''))"

text \<open>The unique indexes: \<^verbatim>\<open>users_pkey\<close>, and \<^verbatim>\<open>UNIQUE\<close> on username and on email.\<close>

definition unique_violation :: "user_row \<Rightarrow> user_row list \<Rightarrow> bool" where
  "unique_violation r others =
    list_ex (\<lambda>x. uid x = uid r \<or> username x = username r \<or> email x = email r) others"

text \<open>
  \<^verbatim>\<open>INSERT INTO users (username, email) VALUES ($1, $2) RETURNING ...\<close>: the id is the
  next value of the sequence (taken even when the insert then fails), both timestamps
  default to \<^verbatim>\<open>NOW()\<close>.
\<close>

definition pg_insert :: "string \<Rightarrow> db \<Rightarrow> string \<Rightarrow> string \<Rightarrow> (go_error + user_row) \<times> db" where
  "pg_insert now d u e =
    (case pg_varchar 100 u of
       Inl err \<Rightarrow> (Inl err, d)
     | Inr u' \<Rightarrow>
         (case pg_varchar 255 e of
            Inl err \<Rightarrow> (Inl err, d)
          | Inr e' \<Rightarrow>
              (let r = \<lparr>uid = seq d + 1, username = u', email = e',
                        created_at = now, updated_at = now\<rparr>
               in if unique_violation r (rows d)
                  then (Inl (PqError ''23505''), d\<lparr>seq := seq d + 1\<rparr>)
                  else (Inr r, d\<lparr>rows := rows d @ [r], seq := seq d + 1\<rparr>))))"

text \<open>
  The column \<^verbatim>\<open>id\<close> is \<^verbatim>\<open>SERIAL\<close>, a 32-bit integer, while the Go functions take an
  \<^verbatim>\<open>int64\<close>: the server types the parameter of \<^verbatim>\<open>WHERE id = $1\<close> as \<^verbatim>\<open>integer\<close> and
  refuses a value outside its range (SQLSTATE 22003) before the statement runs.
\<close>

definition pg_int4 :: "int \<Rightarrow> bool" where
  "pg_int4 i = (- 2147483648 \<le> i \<and> i \<le> 2147483647)"

text \<open>\<^verbatim>\<open>update_modified_column()\<close>, the \<^verbatim>\<open>BEFORE UPDATE\<close> trigger of the migration.\<close>

definition update_modified_column :: "string \<Rightarrow> user_row \<Rightarrow> user_row" where
  "update_modified_column now new = new\<lparr>updated_at := now\<rparr>"

text \<open>
  \<^verbatim>\<open>UPDATE users SET username = $2, email = $3, updated_at = NOW() WHERE id = $1
  RETURNING ...\<close>: the rows the statement returns (none when no row has the id).
\<close>

definition pg_update ::
  "string \<Rightarrow> db \<Rightarrow> int \<Rightarrow> string \<Rightarrow> string \<Rightarrow> (go_error + user_row list) \<times> db" where
  "pg_update now d i u e =
    (if \<not> pg_int4 i then (Inl (PqError ''22003''), d)
     else (case pg_varchar 100 u of
       Inl err \<Rightarrow> (Inl err, d)
     | Inr u' \<Rightarrow>
         (case pg_varchar 255 e of
            Inl err \<Rightarrow> (Inl err, d)
          | Inr e' \<Rightarrow>
              (let upd = (\<lambda>r. update_modified_column now
                                (r\<lparr>username := u', email := e', updated_at := now\<rparr>));
                   hit = filter (\<lambda>r. uid r = i) (rows d);
                   others = filter (\<lambda>r. uid r \<noteq> i) (rows d)
               in if list_ex (\<lambda>r. unique_violation (upd r) others) hit
                  then (Inl (PqError ''23505''), d)
                  else (Inr (map upd hit),
                        d\<lparr>rows := map (\<lambda>r. if uid r = i then upd r else r) (rows d)\<rparr>)))))"

text \<open>
  \<^verbatim>\<open>DELETE FROM users WHERE id = $1\<close>: the number of rows affected, or the server's
  error for an id it refuses.
\<close>

definition pg_delete :: "db \<Rightarrow> int \<Rightarrow> (go_error + nat) \<times> db" where
  "pg_delete d i =
    (if \<not> pg_int4 i then (Inl (PqError ''22003''), d)
     else (Inr (length (filter (\<lambda>r. uid r = i) (rows d))),
           d\<lparr>rows := filter (\<lambda>r. uid r \<noteq> i) (rows d)\<rparr>))"

text \<open>
  \<^verbatim>\<open>SELECT ... FROM users ORDER BY id LIMIT $1 OFFSET $2\<close>: the server refuses a
  negative \<^verbatim>\<open>OFFSET\<close> (2201X) and a negative \<^verbatim>\<open>LIMIT\<close> (2201W).
\<close>

definition pg_select_page :: "db \<Rightarrow> int \<Rightarrow> int \<Rightarrow> go_error + user_row list" where
  "pg_select_page d limit offset =
    (if offset < 0 then Inl (PqError ''2201X'')
     else if limit < 0 then Inl (PqError ''2201W'')
     else Inr (take (nat limit) (drop (nat offset) (sort_key uid (rows d)))))"

text \<open>
  \<^verbatim>\<open>PostgresRepo.GetUser\<close>: \<^verbatim>\<open>sqlx\<close>'s \<^verbatim>\<open>Get\<close> gives the server's error for an id it
  refuses, and \<^verbatim>\<open>sql.ErrNoRows\<close> for no row.
\<close>

definition GetUser :: "link \<Rightarrow> db \<Rightarrow> int64 \<Rightarrow> go_error + User" where
  "GetUser l d i =
    (case l of
       Down m \<Rightarrow> Inl (Wrap ''failed to retrieve user: '' (ConnError m))
     | Up \<Rightarrow>
         if \<not> pg_int4 (sint i)
         then Inl (Wrap ''failed to retrieve user: '' (PqError ''22003''))
         else (case filter (\<lambda>r. uid r = sint i) (rows d) of
            [] \<Rightarrow> Inl (Wrap ''failed to retrieve user: '' ErrNoRows)
          | r # rs \<Rightarrow> Inr (scan_user r)))"

text \<open>\<^verbatim>\<open>PostgresRepo.ListUsers\<close>.\<close>

definition ListUsers :: "link \<Rightarrow> db \<Rightarrow> int \<Rightarrow> int \<Rightarrow> go_error + User list" where
  "ListUsers l d limit offset =
    (case l of
       Down m \<Rightarrow> Inl (Wrap ''failed to retrieve user list: '' (ConnError m))
     | Up \<Rightarrow>
         (case pg_select_page d limit offset of
            Inl err \<Rightarrow> Inl (Wrap ''failed to retrieve user list: '' err)
          | Inr rs \<Rightarrow> Inr (map scan_user rs)))"

text \<open>\<^verbatim>\<open>PostgresRepo.CreateUser\<close>: the result and the database afterwards.\<close>

definition CreateUser ::
  "link \<Rightarrow> string \<Rightarrow> db \<Rightarrow> string \<Rightarrow> string \<Rightarrow> (go_error + User) \<times> db" where
  "CreateUser l now d u e =
    (case l of
       Down m \<Rightarrow> (Inl (Wrap ''failed to create user: '' (ConnError m)), d)
     | Up \<Rightarrow>
         (case pg_insert now d u e of
            (Inl err, d') \<Rightarrow> (Inl (Wrap ''failed to create user: '' err), d')
          | (Inr r, d') \<Rightarrow> (Inr (scan_user r), d')))"

text \<open>
  \<^verbatim>\<open>PostgresRepo.UpdateUser\<close>: \<^verbatim>\<open>StructScan\<close> on a statement that returned no row
  gives \<^verbatim>\<open>sql.ErrNoRows\<close>.
\<close>

definition UpdateUser ::
  "link \<Rightarrow> string \<Rightarrow> db \<Rightarrow> int64 \<Rightarrow> string \<Rightarrow> string \<Rightarrow> (go_error + User) \<times> db" where
  "UpdateUser l now d i u e =
    (case l of
       Down m \<Rightarrow> (Inl (Wrap ''failed to update user: '' (ConnError m)), d)
     | Up \<Rightarrow>
         (case pg_update now d (sint i) u e of
            (Inl err, d') \<Rightarrow> (Inl (Wrap ''failed to update user: '' err), d')
          | (Inr [], d') \<Rightarrow> (Inl (Wrap ''failed to update user: '' ErrNoRows), d')
          | (Inr (r # rs), d') \<Rightarrow> (Inr (scan_user r), d')))"

text \<open>
  \<^verbatim>\<open>PostgresRepo.DeleteUser\<close>: an error of \<^verbatim>\<open>Exec\<close> is returned under the operation's
  message; with no row affected, the error is
  \<^verbatim>\<open>fmt.Errorf("no user found with ID %d", id)\<close>. (\<^verbatim>\<open>RowsAffected\<close> does not fail with
  this driver.)
\<close>

definition DeleteUser :: "link \<Rightarrow> db \<Rightarrow> int64 \<Rightarrow> go_error option \<times> db" where
  "DeleteUser l d i =
    (case l of
       Down m \<Rightarrow> (Some (Wrap ''failed to delete user: '' (ConnError m)), d)
     | Up \<Rightarrow>
         (case pg_delete d (sint i) of
            (Inl err, d') \<Rightarrow> (Some (Wrap ''failed to delete user: '' err), d')
          | (Inr n, d') \<Rightarrow>
              if n = 0
              then (Some (ErrorString (''no user found with ID '' @ FormatInt (sint i))), d')
              else (None, d')))"

text \<open>
  The creation times the table holds for an identity (one, or none when no row has it):
  the observation by which the fate of \<^verbatim>\<open>created_at\<close> under a mutation is stated.
\<close>

definition created_at_of :: "db \<Rightarrow> int \<Rightarrow> string list" where
  "created_at_of d k = map created_at (filter (\<lambda>r. uid r = k) (rows d))"

section \<open>Facts about decimal formatting\<close>

lemma digits_simps_small: "n < 10 \<Longrightarrow> digits n = [digit_char n]"
  by simp

lemma digits_simps_large: "\<not> n < 10 \<Longrightarrow> digits n = digits (n div 10) @ [digit_char (n mod 10)]"
  by simp

declare digits.simps [simp del]

lemma digit_val_digit_char: "d < 10 \<Longrightarrow> digit_val (digit_char d) = d"
  by (simp add: digit_val_def digit_char_def)

lemma is_digit_digit_char: "d < 10 \<Longrightarrow> is_digit (digit_char d)"
  by (simp add: is_digit_def digit_char_def)

lemma dec_val_snoc: "dec_val (s @ [c]) = 10 * dec_val s + digit_val c"
  by (simp add: dec_val_def)

lemma dec_val_digits: "dec_val (digits n) = n"
proof (induction n rule: digits.induct)
  case (1 n)
  show ?case
  proof (cases "n < 10")
    case True
    then show ?thesis
      by (simp add: digits_simps_small dec_val_def digit_val_digit_char)
  next
    case False
    with 1 show ?thesis
      by (simp add: digits_simps_large dec_val_snoc digit_val_digit_char)
  qed
qed

lemma digits_all_digits: "\<forall>c \<in> set (digits n). is_digit c"
proof (induction n rule: digits.induct)
  case (1 n)
  show ?case
  proof (cases "n < 10")
    case True
    then show ?thesis
      by (simp add: digits_simps_small is_digit_digit_char)
  next
    case False
    with 1 show ?thesis
      by (simp add: digits_simps_large is_digit_digit_char)
  qed
qed

lemma digits_not_Nil: "digits n \<noteq> []"
  by (cases "n < 10") (simp_all add: digits_simps_small digits_simps_large)

lemma digits_inj: "digits m = digits n \<Longrightarrow> m = n"
  by (metis dec_val_digits)

lemma not_digit_minus: "\<not> is_digit CHR ''-''"
  by (simp add: is_digit_def)

lemma hd_digits_digit: "is_digit (hd (digits n))"
  using digits_all_digits [of n] digits_not_Nil [of n] by (cases "digits n") auto

lemma FormatInt_inj: "FormatInt i = FormatInt j \<Longrightarrow> i = j"
proof -
  assume eq: "FormatInt i = FormatInt j"
  have neg: "\<And>a b. a < 0 \<Longrightarrow> \<not> b < 0 \<Longrightarrow> FormatInt a \<noteq> FormatInt b"
  proof
    fix a b :: int
    assume "a < 0" "\<not> b < 0" "FormatInt a = FormatInt b"
    then have "CHR ''-'' = hd (digits (nat b))"
      by (simp add: FormatInt_def) (metis list.sel(1))
    then show False
      using hd_digits_digit [of "nat b"] not_digit_minus by simp
  qed
  show "i = j"
  proof (cases "i < 0")
    case True
    show ?thesis
    proof (cases "j < 0")
      case True
      with \<open>i < 0\<close> eq have "nat (- i) = nat (- j)"
        by (auto simp: FormatInt_def dest: digits_inj)
      with True \<open>i < 0\<close> show ?thesis by simp
    next
      case False
      with \<open>i < 0\<close> eq neg show ?thesis by blast
    qed
  next
    case False
    show ?thesis
    proof (cases "j < 0")
      case True
      with False eq neg [of j i] show ?thesis by auto
    next
      case False
      with \<open>\<not> i < 0\<close> eq have "nat i = nat j"
        by (auto simp: FormatInt_def dest: digits_inj)
      with False \<open>\<not> i < 0\<close> show ?thesis by simp
    qed
  qed
qed

section \<open>The cache layer: miss, failure and deletion\<close>

text \<open>
  C1. \<open>GetCache\<close> tells an absent key from a transport failure. When the server holds
  nothing under the key (never set, deleted or expired), the result is
  \<open>found = false\<close> with no error and the destination untouched; when the call fails in
  transport, the result carries an error wrapping the transport failure. The two
  results differ for all inputs.
\<close>

theorem GetCache_miss_is_not_unavailable:
  "live now store key = None \<Longrightarrow>
     GetCache Up now store key dest = (False, None, dest)
   \<and> GetCache (Down m) now' store' key' dest'
       = (False, Some (Wrap ''Failed to get cache: '' (ConnError m)), dest')
   \<and> errors_Is (Wrap ''Failed to get cache: '' (ConnError m)) (ConnError m)
   \<and> GetCache Up now store key dest \<noteq> GetCache (Down m) now' store' key' dest'"
  by (simp add: GetCache_def client_Get_def)

theorem GetCache_miss_is_not_unavailable_witness:
  "live 5 Map.empty ''user:1'' = None
   \<and> GetCache Up 5 Map.empty ''user:1'' \<lparr>ID = 0, Username = '''', Email = '''', CreatedAt = '''', UpdatedAt = ''''\<rparr>
       = (False, None, \<lparr>ID = 0, Username = '''', Email = '''', CreatedAt = '''', UpdatedAt = ''''\<rparr>)
   \<and> GetCache (Down ''dial tcp: connection refused'') 5 Map.empty ''user:1''
         \<lparr>ID = 0, Username = '''', Email = '''', CreatedAt = '''', UpdatedAt = ''''\<rparr>
       = (False, Some (Wrap ''Failed to get cache: '' (ConnError ''dial tcp: connection refused'')),
          \<lparr>ID = 0, Username = '''', Email = '''', CreatedAt = '''', UpdatedAt = ''''\<rparr>)"
proof -
  have h: "live 5 Map.empty ''user:1'' = None"
    by (simp add: live_def)
  from GetCache_miss_is_not_unavailable [OF h, of _ "''dial tcp: connection refused''" 5 Map.empty "''user:1''"] h
  show ?thesis by simp
qed

text \<open>
  C7. \<open>DeleteCache\<close> on a key the cache does not hold succeeds and leaves the cache as
  it was; it succeeds for every key when the command reaches the server, and it returns
  an error exactly when the call fails in transport.
\<close>

theorem DeleteCache_absent_key:
  "(store key = None \<longrightarrow> DeleteCache Up store key = (None, store))
   \<and> fst (DeleteCache Up store key) = None
   \<and> DeleteCache (Down m) store key = (Some (Wrap ''Failed to delete cache: '' (ConnError m)), store)
   \<and> ((\<exists>err. fst (DeleteCache l store key) = Some err) = (\<exists>m'. l = Down m'))"
  by (cases l) (auto simp: DeleteCache_def client_Del_def)

theorem DeleteCache_absent_key_witness:
  "(Map.empty :: redis) ''user:9'' = None \<and> DeleteCache Up Map.empty ''user:9'' = (None, Map.empty)"
  using DeleteCache_absent_key [of Map.empty "''user:9''"] by simp

section \<open>The record store\<close>

subsection \<open>Reading one record\<close>

text \<open>
  C2, as the code has it. The identity is an \<^verbatim>\<open>int64\<close> and the column a 32-bit
  integer, so the claim holds for the identities the column can hold: for such an
  identity with no row, \<open>GetUser\<close> returns \<^verbatim>\<open>sql.ErrNoRows\<close> under the operation's
  message. The cause is carried as it is (\<open>Unwrap\<close> gives it back) and \<open>errors_Is\<close>
  finds it, which it does not in the error of a failed connection.
\<close>

theorem GetUser_not_found:
  "pg_int4 (sint i) \<Longrightarrow> \<not> list_ex (\<lambda>r. uid r = sint i) (rows d) \<Longrightarrow>
     GetUser Up d i = Inl (Wrap ''failed to retrieve user: '' ErrNoRows)
   \<and> Unwrap (Wrap ''failed to retrieve user: '' ErrNoRows) = Some ErrNoRows
   \<and> errors_Is (Wrap ''failed to retrieve user: '' ErrNoRows) ErrNoRows
   \<and> GetUser (Down m) d i = Inl (Wrap ''failed to retrieve user: '' (ConnError m))
   \<and> \<not> errors_Is (Wrap ''failed to retrieve user: '' (ConnError m)) ErrNoRows
   \<and> GetUser Up d i \<noteq> GetUser (Down m) d i"
proof -
  assume r: "pg_int4 (sint i)" and "\<not> list_ex (\<lambda>r. uid r = sint i) (rows d)"
  then have "filter (\<lambda>r. uid r = sint i) (rows d) = []"
    by (simp add: list_ex_iff filter_empty_conv)
  with r show ?thesis
    by (simp add: GetUser_def)
qed

theorem GetUser_not_found_witness:
  "pg_int4 (sint (2 :: int64))
   \<and> \<not> list_ex (\<lambda>r. uid r = sint (2 :: int64))
        (rows \<lparr>rows = [\<lparr>uid = 1, username = ''alice'', email = ''a@x.com'',
                          created_at = ''t0'', updated_at = ''t0''\<rparr>], seq = 1\<rparr>)
   \<and> GetUser Up \<lparr>rows = [\<lparr>uid = 1, username = ''alice'', email = ''a@x.com'',
                          created_at = ''t0'', updated_at = ''t0''\<rparr>], seq = 1\<rparr> 2
       = Inl (Wrap ''failed to retrieve user: '' ErrNoRows)
   \<and> GetUser Up \<lparr>rows = [\<lparr>uid = 1, username = ''alice'', email = ''a@x.com'',
                          created_at = ''t0'', updated_at = ''t0''\<rparr>], seq = 1\<rparr> 1
       = Inr \<lparr>ID = 1, Username = ''alice'', Email = ''a@x.com'',
              CreatedAt = ''t0'', UpdatedAt = ''t0''\<rparr>"
proof -
  let ?d = "\<lparr>rows = [\<lparr>uid = 1, username = ''alice'', email = ''a@x.com'',
                          created_at = ''t0'', updated_at = ''t0''\<rparr>], seq = 1\<rparr>"
  have r: "pg_int4 (sint (2 :: int64))"
    by (simp add: pg_int4_def)
  have h: "\<not> list_ex (\<lambda>r. uid r = sint (2 :: int64)) (rows ?d)"
    by simp
  have g: "GetUser Up ?d 1 = Inr \<lparr>ID = 1, Username = ''alice'', Email = ''a@x.com'',
              CreatedAt = ''t0'', UpdatedAt = ''t0''\<rparr>"
    by (simp add: GetUser_def scan_user_def pg_int4_def)
  from GetUser_not_found [OF r h] r h g show ?thesis by simp
qed

text \<open>
  The claim as written, for every identity, fails at \<^verbatim>\<open>id = 2147483648\<close>: no row has
  it, and the error returned is the server's refusal of the value, with no
  \<^verbatim>\<open>sql.ErrNoRows\<close> in its chain.
\<close>

theorem GetUser_out_of_range:
  "\<not> list_ex (\<lambda>r. uid r = sint (2147483648 :: int64))
        (rows \<lparr>rows = [\<lparr>uid = 1, username = ''alice'', email = ''a@x.com'',
                          created_at = ''t0'', updated_at = ''t0''\<rparr>], seq = 1\<rparr>)
   \<and> GetUser Up \<lparr>rows = [\<lparr>uid = 1, username = ''alice'', email = ''a@x.com'',
                          created_at = ''t0'', updated_at = ''t0''\<rparr>], seq = 1\<rparr> 2147483648
       = Inl (Wrap ''failed to retrieve user: '' (PqError ''22003''))
   \<and> \<not> errors_Is (Wrap ''failed to retrieve user: '' (PqError ''22003'')) ErrNoRows"
  by (simp add: GetUser_def pg_int4_def)

subsection \<open>Deleting a record\<close>

text \<open>
  C5, as the code has it: for the identities the 32-bit column can hold. \<open>DeleteUser\<close>
  on such an identity that has a row succeeds, and afterwards the table is the old one
  without the rows of that identity; on one that has no row it returns the error
  \<^verbatim>\<open>no user found with ID ...\<close> and the database is unchanged.
\<close>

theorem DeleteUser_result:
  "pg_int4 (sint i) \<Longrightarrow>
   (list_ex (\<lambda>r. uid r = sint i) (rows d) \<longrightarrow>
      DeleteUser Up d i = (None, d\<lparr>rows := filter (\<lambda>r. uid r \<noteq> sint i) (rows d)\<rparr>)
      \<and> \<not> list_ex (\<lambda>r. uid r = sint i) (rows (snd (DeleteUser Up d i))))
   \<and> (\<not> list_ex (\<lambda>r. uid r = sint i) (rows d) \<longrightarrow>
      DeleteUser Up d i
        = (Some (ErrorString (''no user found with ID '' @ FormatInt (sint i))), d))"
proof (cases "list_ex (\<lambda>r. uid r = sint i) (rows d)")
  case True
  assume r: "pg_int4 (sint i)"
  from True have "filter (\<lambda>r. uid r = sint i) (rows d) \<noteq> []"
    by (simp add: list_ex_iff filter_empty_conv)
  with True r show ?thesis
    by (simp add: DeleteUser_def pg_delete_def list_ex_iff)
next
  case False
  assume r: "pg_int4 (sint i)"
  from False have "filter (\<lambda>r. uid r = sint i) (rows d) = []"
    and "filter (\<lambda>r. uid r \<noteq> sint i) (rows d) = rows d"
    by (simp_all add: list_ex_iff filter_empty_conv filter_id_conv)
  with False r show ?thesis
    by (simp add: DeleteUser_def pg_delete_def)
qed

theorem DeleteUser_result_witness:
  "pg_int4 (sint (1 :: int64))
   \<and> list_ex (\<lambda>r. uid r = sint (1 :: int64))
        (rows \<lparr>rows = [\<lparr>uid = 1, username = ''alice'', email = ''a@x.com'',
                          created_at = ''t0'', updated_at = ''t0''\<rparr>], seq = 1\<rparr>)
   \<and> DeleteUser Up \<lparr>rows = [\<lparr>uid = 1, username = ''alice'', email = ''a@x.com'',
                          created_at = ''t0'', updated_at = ''t0''\<rparr>], seq = 1\<rparr> 1
       = (None, \<lparr>rows = [], seq = 1\<rparr>)
   \<and> pg_int4 (sint (2 :: int64))
   \<and> \<not> list_ex (\<lambda>r. uid r = sint (2 :: int64))
        (rows \<lparr>rows = [\<lparr>uid = 1, username = ''alice'', email = ''a@x.com'',
                          created_at = ''t0'', updated_at = ''t0''\<rparr>], seq = 1\<rparr>)
   \<and> DeleteUser Up \<lparr>rows = [\<lparr>uid = 1, username = ''alice'', email = ''a@x.com'',
                          created_at = ''t0'', updated_at = ''t0''\<rparr>], seq = 1\<rparr> 2
       = (Some (ErrorString ''no user found with ID 2''),
          \<lparr>rows = [\<lparr>uid = 1, username = ''alice'', email = ''a@x.com'',
                          created_at = ''t0'', updated_at = ''t0''\<rparr>], seq = 1\<rparr>)"
proof -
  let ?d = "\<lparr>rows = [\<lparr>uid = 1, username = ''alice'', email = ''a@x.com'',
                          created_at = ''t0'', updated_at = ''t0''\<rparr>], seq = 1\<rparr>"
  have c: "char_of (50 :: nat) = CHR ''2''"
    by code_simp
  have f: "FormatInt 2 = ''2''"
    by (simp add: FormatInt_def digits_simps_small digit_char_def c)
  have r: "pg_int4 (sint (1 :: int64))" "pg_int4 (sint (2 :: int64))"
    by (simp_all add: pg_int4_def)
  from DeleteUser_result [OF r(1), of ?d] DeleteUser_result [OF r(2), of ?d] f r show ?thesis
    by simp
qed

text \<open>
  The claim as written, for every identity, fails at \<^verbatim>\<open>id = 2147483648\<close>: no row has
  it, and \<open>DeleteUser\<close> returns the server's refusal of the value under
  \<^verbatim>\<open>failed to delete user\<close>, not the not-found error.
\<close>

theorem DeleteUser_out_of_range:
  "\<not> list_ex (\<lambda>r. uid r = sint (2147483648 :: int64))
        (rows \<lparr>rows = [\<lparr>uid = 1, username = ''alice'', email = ''a@x.com'',
                          created_at = ''t0'', updated_at = ''t0''\<rparr>], seq = 1\<rparr>)
   \<and> DeleteUser Up \<lparr>rows = [\<lparr>uid = 1, username = ''alice'', email = ''a@x.com'',
                          created_at = ''t0'', updated_at = ''t0''\<rparr>], seq = 1\<rparr> 2147483648
       = (Some (Wrap ''failed to delete user: '' (PqError ''22003'')),
          \<lparr>rows = [\<lparr>uid = 1, username = ''alice'', email = ''a@x.com'',
                          created_at = ''t0'', updated_at = ''t0''\<rparr>], seq = 1\<rparr>)"
  by (simp add: DeleteUser_def pg_delete_def pg_int4_def)

subsection \<open>Listing records\<close>

text \<open>
  C3, as the code has it. \<^verbatim>\<open>limit\<close> and \<^verbatim>\<open>offset\<close> are signed, and the server
  refuses a negative one, so the claim holds for the non-negative ones: \<open>ListUsers\<close>
  then returns the rows sorted by identity (a rearrangement of the table), from
  position \<open>offset\<close> on, at most \<open>limit\<close> of them, and no row, not an error, when
  \<open>offset\<close> reaches past the table.
\<close>

theorem ListUsers_page:
  "0 \<le> limit \<Longrightarrow> 0 \<le> offset \<Longrightarrow>
   \<exists>rs. ListUsers Up d limit offset = Inr (map scan_user rs)
      \<and> rs = take (nat limit) (drop (nat offset) (sort_key uid (rows d)))
      \<and> sorted (map uid (sort_key uid (rows d)))
      \<and> mset (sort_key uid (rows d)) = mset (rows d)
      \<and> sorted (map uid rs)
      \<and> length rs \<le> nat limit
      \<and> (length (rows d) \<le> nat offset \<longrightarrow> rs = [])"
proof -
  assume l: "0 \<le> limit" and o: "0 \<le> offset"
  let ?all = "sort_key uid (rows d)"
  let ?rs = "take (nat limit) (drop (nat offset) ?all)"
  have 1: "ListUsers Up d limit offset = Inr (map scan_user ?rs)"
    using l o by (simp add: ListUsers_def pg_select_page_def)
  have 2: "sorted (map uid ?all)"
    by (rule sorted_sort_key)
  have "sorted (take (nat limit) (drop (nat offset) (map uid ?all)))"
    using 2 by (intro sorted_wrt_take sorted_wrt_drop)
  then have 3: "sorted (map uid ?rs)"
    by (simp add: take_map drop_map)
  have 4: "length ?rs \<le> nat limit"
    by simp
  have 5: "length (rows d) \<le> nat offset \<longrightarrow> ?rs = []"
    by simp
  from 1 2 3 4 5 show ?thesis
    by (intro exI [of _ ?rs]) simp
qed

theorem ListUsers_page_witness:
  "(0 :: int) \<le> 1 \<and> (0 :: int) \<le> 1
   \<and> ListUsers Up
        \<lparr>rows = [\<lparr>uid = 3, username = ''c'', email = ''c@x'', created_at = ''t3'', updated_at = ''t3''\<rparr>,
                 \<lparr>uid = 1, username = ''a'', email = ''a@x'', created_at = ''t1'', updated_at = ''t1''\<rparr>,
                 \<lparr>uid = 2, username = ''b'', email = ''b@x'', created_at = ''t2'', updated_at = ''t2''\<rparr>],
         seq = 3\<rparr> 1 1
     = Inr [\<lparr>ID = 2, Username = ''b'', Email = ''b@x'', CreatedAt = ''t2'', UpdatedAt = ''t2''\<rparr>]
   \<and> ListUsers Up
        \<lparr>rows = [\<lparr>uid = 3, username = ''c'', email = ''c@x'', created_at = ''t3'', updated_at = ''t3''\<rparr>,
                 \<lparr>uid = 1, username = ''a'', email = ''a@x'', created_at = ''t1'', updated_at = ''t1''\<rparr>,
                 \<lparr>uid = 2, username = ''b'', email = ''b@x'', created_at = ''t2'', updated_at = ''t2''\<rparr>],
         seq = 3\<rparr> 1 5
     = Inr []"
proof -
  let ?d = "\<lparr>rows = [\<lparr>uid = 3, username = ''c'', email = ''c@x'', created_at = ''t3'', updated_at = ''t3''\<rparr>,
                 \<lparr>uid = 1, username = ''a'', email = ''a@x'', created_at = ''t1'', updated_at = ''t1''\<rparr>,
                 \<lparr>uid = 2, username = ''b'', email = ''b@x'', created_at = ''t2'', updated_at = ''t2''\<rparr>],
         seq = 3\<rparr>"
  have h: "(0 :: int) \<le> 1" by simp
  have h5: "(0 :: int) \<le> 5" by simp
  from ListUsers_page [OF h h, of ?d] ListUsers_page [OF h h5, of ?d] show ?thesis
    by (simp add: scan_user_def)
qed

text \<open>
  The claim as written, for every \<^verbatim>\<open>limit\<close>, fails at \<^verbatim>\<open>limit = -1\<close>: the result is
  the server's error, not a sequence.
\<close>

theorem ListUsers_negative_limit:
  "ListUsers Up \<lparr>rows = [], seq = 0\<rparr> (- 1) 0
     = Inl (Wrap ''failed to retrieve user list: '' (PqError ''2201W''))"
  by (simp add: ListUsers_def pg_select_page_def)

subsection \<open>Creating a record\<close>

lemma runes_ascii:
  "list_all (\<lambda>c. byte c < 128) s \<Longrightarrow> runes s = map (\<lambda>c. (byte c, 1, [c])) s"
  by (induction s) simp_all

lemma ValidString_ascii:
  "list_all (\<lambda>c. byte c < 128) s \<Longrightarrow> ValidString s"
  by (auto simp: ValidString_def runes_ascii list_ex_iff bad_rune_def RuneError_def list_all_iff)

lemma pg_varchar_ascii:
  "list_all (\<lambda>c. 0 < byte c \<and> byte c < 128) s \<Longrightarrow> length s \<le> n \<Longrightarrow> pg_varchar n s = Inr s"
proof -
  assume a: "list_all (\<lambda>c. 0 < byte c \<and> byte c < 128) s" and n: "length s \<le> n"
  then have b: "list_all (\<lambda>c. byte c < 128) s"
    by (simp add: list_all_iff)
  from a have "\<not> list_ex (\<lambda>c. byte c = 0) s"
    by (auto simp: list_all_iff list_ex_iff)
  with b n show ?thesis
    by (simp add: pg_varchar_def pg_text_def ValidString_ascii runes_ascii)
qed


lemma pg_insert_Inr:
  assumes "pg_insert now d u e = (Inr r, d1)"
  shows "\<exists>u' e'. pg_varchar 100 u = Inr u' \<and> pg_varchar 255 e = Inr e'
      \<and> r = \<lparr>uid = seq d + 1, username = u', email = e', created_at = now, updated_at = now\<rparr>
      \<and> \<not> unique_violation r (rows d)
      \<and> d1 = d\<lparr>rows := rows d @ [r], seq := seq d + 1\<rparr>"
  using assms
  by (auto simp: pg_insert_def Let_def split: sum.splits if_splits)






subsection \<open>Updating a record\<close>

lemma pg_update_Inr:
  assumes "pg_update now d i u e = (Inr rs, d')"
  shows "\<exists>u' e'. rs = map (\<lambda>r. r\<lparr>username := u', email := e', updated_at := now\<rparr>)
                      (filter (\<lambda>r. uid r = i) (rows d))
    \<and> d' = d\<lparr>rows := map (\<lambda>r. if uid r = i
                  then r\<lparr>username := u', email := e', updated_at := now\<rparr> else r) (rows d)\<rparr>"
  using assms
  by (auto simp: pg_update_def Let_def update_modified_column_def
      split: sum.splits if_splits)

lemma UpdateUser_Inr:
  assumes "UpdateUser l now d i u e = (Inr usr, d')"
  shows "\<exists>rs. pg_update now d (sint i) u e = (Inr rs, d') \<and> rs \<noteq> [] \<and> usr = scan_user (hd rs)"
  using assms
  by (auto simp: UpdateUser_def split: link.splits sum.splits prod.splits list.splits)

theorem UpdateUser_timestamps:
  "UpdateUser l now d i u e = (Inr usr, d') \<Longrightarrow>
     UpdatedAt usr = now
   \<and> (\<exists>r \<in> set (rows d). uid r = sint i \<and> CreatedAt usr = created_at r)
   \<and> (\<forall>r' \<in> set (rows d'). uid r' = sint i \<longrightarrow> updated_at r' = now)
   \<and> map uid (rows d') = map uid (rows d)
   \<and> map created_at (rows d') = map created_at (rows d)"
proof -
  assume a: "UpdateUser l now d i u e = (Inr usr, d')"
  from UpdateUser_Inr [OF a] obtain rs where
    rs: "pg_update now d (sint i) u e = (Inr rs, d')" "rs \<noteq> []" "usr = scan_user (hd rs)"
    by blast
  from pg_update_Inr [OF rs(1)] obtain u' e' where
    ue: "rs = map (\<lambda>r. r\<lparr>username := u', email := e', updated_at := now\<rparr>)
                      (filter (\<lambda>r. uid r = sint i) (rows d))"
      "d' = d\<lparr>rows := map (\<lambda>r. if uid r = sint i
                  then r\<lparr>username := u', email := e', updated_at := now\<rparr> else r) (rows d)\<rparr>"
    by blast
  from rs(2) ue(1) obtain r hs where hit: "filter (\<lambda>r. uid r = sint i) (rows d) = r # hs"
    by (cases "filter (\<lambda>r. uid r = sint i) (rows d)") auto
  then have "r \<in> set (filter (\<lambda>r. uid r = sint i) (rows d))"
    by simp
  then have rin: "r \<in> set (rows d)" "uid r = sint i"
    by simp_all
  from hit ue(1) rs(3) have usr: "usr = scan_user (r\<lparr>username := u', email := e', updated_at := now\<rparr>)"
    by simp
  have 1: "UpdatedAt usr = now" and 2: "CreatedAt usr = created_at r"
    using usr by (simp_all add: scan_user_def)
  have 3: "\<forall>r' \<in> set (rows d'). uid r' = sint i \<longrightarrow> updated_at r' = now"
    using ue(2) by auto
  have 4: "map uid (rows d') = map uid (rows d)"
    using ue(2) by (simp add: comp_def if_distrib cong: if_cong)
  have 5: "map created_at (rows d') = map created_at (rows d)"
    using ue(2) by (simp add: comp_def if_distrib cong: if_cong)
  from 1 2 3 4 5 rin show ?thesis by blast
qed

lemma created_at_of_update:
  assumes "UpdateUser l now d i u e = (res, d')"
  shows "created_at_of d' k = created_at_of d k"
proof -
  have "d' = d \<or> (\<exists>rs. pg_update now d (sint i) u e = (Inr rs, d'))"
    using assms
    by (auto simp: UpdateUser_def pg_update_def Let_def split: link.splits sum.splits prod.splits list.splits if_splits)
  then show ?thesis
  proof
    assume "d' = d" then show ?thesis by simp
  next
    assume "\<exists>rs. pg_update now d (sint i) u e = (Inr rs, d')"
    then obtain rs where "pg_update now d (sint i) u e = (Inr rs, d')" by blast
    from pg_update_Inr [OF this] obtain u' e' where
      "d' = d\<lparr>rows := map (\<lambda>r. if uid r = sint i
                  then r\<lparr>username := u', email := e', updated_at := now\<rparr> else r) (rows d)\<rparr>"
      by blast
    then show ?thesis
      by (simp add: created_at_of_def filter_map comp_def if_distrib cong: if_cong)
  qed
qed

lemma created_at_of_create:
  assumes "created_at_of d k \<noteq> []"
  shows "created_at_of (snd (CreateUser l now d u e)) k = created_at_of d k"
proof (cases "\<exists>r d1. pg_insert now d u e = (Inr r, d1)")
  case True
  then obtain r d1 where r: "pg_insert now d u e = (Inr r, d1)" by blast
  from pg_insert_Inr [OF r] have nv: "\<not> unique_violation r (rows d)"
    and d1: "d1 = d\<lparr>rows := rows d @ [r], seq := seq d + 1\<rparr>"
    by blast+
  from assms obtain x where "x \<in> set (rows d)" "uid x = k"
    by (auto simp: created_at_of_def filter_empty_conv)
  with nv have "uid r \<noteq> k"
    by (auto simp: unique_violation_def list_ex_iff)
  with d1 have "created_at_of d1 k = created_at_of d k"
    by (simp add: created_at_of_def)
  moreover have "snd (CreateUser l now d u e) = d1 \<or> snd (CreateUser l now d u e) = d"
    using r by (simp add: CreateUser_def split: link.splits)
  ultimately show ?thesis by auto
next
  case False
  then have "rows (snd (CreateUser l now d u e)) = rows d"
    by (auto simp: CreateUser_def pg_insert_def Let_def split: link.splits sum.splits prod.splits if_splits)
  then show ?thesis
    by (simp add: created_at_of_def)
qed

lemma created_at_of_delete:
  "created_at_of (snd (DeleteUser l d i)) k = created_at_of d k
   \<or> created_at_of (snd (DeleteUser l d i)) k = []"
proof (cases "k = sint i")
  case True
  then show ?thesis
    by (cases l; cases "pg_int4 (sint i)")
       (simp_all add: DeleteUser_def pg_delete_def created_at_of_def)
next
  case False
  then have "filter (\<lambda>x. uid x \<noteq> sint i \<and> uid x = k) (rows d) = filter (\<lambda>r. uid r = k) (rows d)"
    by (intro filter_cong) auto
  then show ?thesis
    by (cases l; cases "pg_int4 (sint i)")
       (simp_all add: DeleteUser_def pg_delete_def created_at_of_def)
qed

text \<open>
  C6. A successful \<open>UpdateUser\<close> returns, and stores, the record with
  \<^verbatim>\<open>updated_at\<close> equal to the server's clock at the time of the statement (the caller
  passes no time), and with the \<^verbatim>\<open>created_at\<close> the row had. No mutation changes the
  \<^verbatim>\<open>created_at\<close> of a row it leaves in the table: an update keeps it for every
  identity, a create keeps it for every identity that has a row, a delete keeps it or
  removes the row.
\<close>

theorem UpdateUser_created_and_updated_at:
  "(UpdateUser l now d i u e = (Inr usr, d') \<longrightarrow>
       UpdatedAt usr = now
     \<and> (\<exists>r \<in> set (rows d). uid r = sint i \<and> CreatedAt usr = created_at r)
     \<and> (\<forall>r' \<in> set (rows d'). uid r' = sint i \<longrightarrow> updated_at r' = now))
   \<and> created_at_of (snd (UpdateUser l now d i u e)) k = created_at_of d k
   \<and> (created_at_of d k \<noteq> [] \<longrightarrow>
        created_at_of (snd (CreateUser l now d u e)) k = created_at_of d k)
   \<and> (created_at_of (snd (DeleteUser l d i)) k = created_at_of d k
        \<or> created_at_of (snd (DeleteUser l d i)) k = [])"
proof -
  have 1: "UpdateUser l now d i u e = (Inr usr, d') \<longrightarrow>
       UpdatedAt usr = now
     \<and> (\<exists>r \<in> set (rows d). uid r = sint i \<and> CreatedAt usr = created_at r)
     \<and> (\<forall>r' \<in> set (rows d'). uid r' = sint i \<longrightarrow> updated_at r' = now)"
    using UpdateUser_timestamps [of l now d i u e usr d'] by blast
  have 2: "created_at_of (snd (UpdateUser l now d i u e)) k = created_at_of d k"
    by (rule created_at_of_update [of l now d i u e "fst (UpdateUser l now d i u e)"]) simp
  from 1 2 created_at_of_create [of d k l now u e] created_at_of_delete [of l d i k]
  show ?thesis by blast
qed

theorem UpdateUser_created_and_updated_at_witness:
  "UpdateUser Up ''2024-05-02T10:00:00Z''
      \<lparr>rows = [\<lparr>uid = 1, username = ''alice'', email = ''a@x.com'',
                created_at = ''2024-05-01T09:00:00Z'', updated_at = ''2024-05-01T09:00:00Z''\<rparr>],
       seq = 1\<rparr> 1 ''bob'' ''b@x.com''
    = (Inr \<lparr>ID = 1, Username = ''bob'', Email = ''b@x.com'',
            CreatedAt = ''2024-05-01T09:00:00Z'', UpdatedAt = ''2024-05-02T10:00:00Z''\<rparr>,
       \<lparr>rows = [\<lparr>uid = 1, username = ''bob'', email = ''b@x.com'',
                created_at = ''2024-05-01T09:00:00Z'', updated_at = ''2024-05-02T10:00:00Z''\<rparr>],
        seq = 1\<rparr>)
   \<and> UpdatedAt \<lparr>ID = 1, Username = ''bob'', Email = ''b@x.com'',
            CreatedAt = ''2024-05-01T09:00:00Z'', UpdatedAt = ''2024-05-02T10:00:00Z''\<rparr>
      = ''2024-05-02T10:00:00Z''
   \<and> created_at_of \<lparr>rows = [\<lparr>uid = 1, username = ''alice'', email = ''a@x.com'',
                created_at = ''2024-05-01T09:00:00Z'', updated_at = ''2024-05-01T09:00:00Z''\<rparr>],
       seq = 1\<rparr> 1 = [''2024-05-01T09:00:00Z'']
   \<and> created_at_of (snd (UpdateUser Up ''2024-05-02T10:00:00Z''
      \<lparr>rows = [\<lparr>uid = 1, username = ''alice'', email = ''a@x.com'',
                created_at = ''2024-05-01T09:00:00Z'', updated_at = ''2024-05-01T09:00:00Z''\<rparr>],
       seq = 1\<rparr> 1 ''bob'' ''b@x.com'')) 1 = [''2024-05-01T09:00:00Z'']"
proof -
  let ?d = "\<lparr>rows = [\<lparr>uid = 1, username = ''alice'', email = ''a@x.com'',
                created_at = ''2024-05-01T09:00:00Z'', updated_at = ''2024-05-01T09:00:00Z''\<rparr>],
       seq = 1\<rparr>"
  have v: "pg_varchar 100 ''bob'' = Inr ''bob''" "pg_varchar 255 ''b@x.com'' = Inr ''b@x.com''"
    by (simp_all add: pg_varchar_ascii byte_def)
  have run: "UpdateUser Up ''2024-05-02T10:00:00Z'' ?d 1 ''bob'' ''b@x.com''
    = (Inr \<lparr>ID = 1, Username = ''bob'', Email = ''b@x.com'',
            CreatedAt = ''2024-05-01T09:00:00Z'', UpdatedAt = ''2024-05-02T10:00:00Z''\<rparr>,
       \<lparr>rows = [\<lparr>uid = 1, username = ''bob'', email = ''b@x.com'',
                created_at = ''2024-05-01T09:00:00Z'', updated_at = ''2024-05-02T10:00:00Z''\<rparr>],
        seq = 1\<rparr>)"
    by (simp add: UpdateUser_def pg_update_def pg_int4_def v Let_def update_modified_column_def
        unique_violation_def scan_user_def)
  have c: "created_at_of ?d 1 = [''2024-05-01T09:00:00Z'']"
    by (simp add: created_at_of_def)
  from UpdateUser_created_and_updated_at [of Up "''2024-05-02T10:00:00Z''" ?d 1 "''bob''" "''b@x.com''" _ _ 1] run c
  show ?thesis by simp
qed

section \<open>Cache-key derivation\<close>

text \<open>
  C10. Cache-key derivation is injective: distinct identities get distinct keys, so the
  cache entries of distinct records never share a key. (Determinism is the fact that
  \<open>GetUserCacheKey\<close> is a function of the identity alone.)
\<close>

theorem GetUserCacheKey_injective:
  "id1 \<noteq> id2 \<Longrightarrow> GetUserCacheKey id1 \<noteq> GetUserCacheKey id2"
proof
  assume ne: "id1 \<noteq> id2" and eq: "GetUserCacheKey id1 = GetUserCacheKey id2"
  from eq have "FormatInt (sint id1) = FormatInt (sint id2)"
    by (simp add: GetUserCacheKey_def)
  then have "sint id1 = sint id2"
    by (rule FormatInt_inj)
  then have "id1 = id2"
    by (simp add: signed_word_eqI)
  with ne show False by simp
qed

theorem GetUserCacheKey_injective_witness:
  "(7 :: int64) \<noteq> 71 \<and> GetUserCacheKey 7 \<noteq> GetUserCacheKey 71
   \<and> GetUserCacheKey 7 = ''user:7'' \<and> GetUserCacheKey 71 = ''user:71''"
proof -
  have ne: "(7 :: int64) \<noteq> 71" by simp
  have c: "char_of (55 :: nat) = CHR ''7''" "char_of (49 :: nat) = CHR ''1''"
    by code_simp+
  have k7: "GetUserCacheKey 7 = ''user:7''"
    by (simp add: GetUserCacheKey_def FormatInt_def digits_simps_small digit_char_def c)
  have k71: "GetUserCacheKey 71 = ''user:71''"
    by (simp add: GetUserCacheKey_def FormatInt_def digits_simps_small digits_simps_large
        digit_char_def c)
  from GetUserCacheKey_injective [OF ne] ne k7 k71 show ?thesis by simp
qed

section \<open>Facts about UTF-8\<close>

lemma byte_lt_256: "byte c < 256"
  by (simp add: byte_def)

lemma char_of_byte: "char_of (byte c) = c"
  by (simp add: byte_def)

lemma dm:
  fixes a m r :: nat
  assumes "r < m"
  shows "(a * m + r) div m = a" and "(a * m + r) mod m = r"
  using assms by simp_all

lemma dm3:
  fixes x y z :: nat
  assumes "y < 64" "z < 64"
  shows "(x * 4096 + y * 64 + z) div 4096 = x"
    and "(x * 4096 + y * 64 + z) div 64 mod 64 = y"
    and "(x * 4096 + y * 64 + z) mod 64 = z"
proof -
  have e: "x * 4096 + y * 64 + z = (x * 64 + y) * 64 + z"
    by simp
  have f: "x * 4096 + y * 64 + z = x * 4096 + (y * 64 + z)"
    by simp
  have yz: "y * 64 + z < 4096"
    using assms by simp
  show "(x * 4096 + y * 64 + z) mod 64 = z"
    by (simp only: e dm(2) [OF assms(2)])
  show "(x * 4096 + y * 64 + z) div 64 mod 64 = y"
    by (simp only: e dm(1) [OF assms(2)] dm(2) [OF assms(1)])
  show "(x * 4096 + y * 64 + z) div 4096 = x"
    by (simp only: f dm(1) [OF yz])
qed

lemma dm4:
  fixes w x y z :: nat
  assumes "x < 64" "y < 64" "z < 64"
  shows "(w * 262144 + x * 4096 + y * 64 + z) div 262144 = w"
    and "(w * 262144 + x * 4096 + y * 64 + z) div 4096 mod 64 = x"
    and "(w * 262144 + x * 4096 + y * 64 + z) div 64 mod 64 = y"
    and "(w * 262144 + x * 4096 + y * 64 + z) mod 64 = z"
proof -
  have e: "w * 262144 + x * 4096 + y * 64 + z = ((w * 64 + x) * 64 + y) * 64 + z"
    by simp
  have f: "w * 262144 + x * 4096 + y * 64 + z = (w * 64 + x) * 4096 + (y * 64 + z)"
    by simp
  have g: "w * 262144 + x * 4096 + y * 64 + z = w * 262144 + (x * 4096 + y * 64 + z)"
    by simp
  have yz: "y * 64 + z < 4096"
    using assms by simp
  have xyz: "x * 4096 + y * 64 + z < 262144"
    using assms by simp
  show "(w * 262144 + x * 4096 + y * 64 + z) mod 64 = z"
    by (simp only: e dm(2) [OF assms(3)])
  show "(w * 262144 + x * 4096 + y * 64 + z) div 64 mod 64 = y"
    by (simp only: e dm(1) [OF assms(3)] dm(2) [OF assms(2)])
  show "(w * 262144 + x * 4096 + y * 64 + z) div 4096 mod 64 = x"
    by (simp only: f dm(1) [OF yz] dm(2) [OF assms(1)])
  show "(w * 262144 + x * 4096 + y * 64 + z) div 262144 = w"
    by (simp only: g dm(1) [OF xyz])
qed

lemma mod_off:
  fixes b k m :: nat
  assumes "k * m \<le> b" "b < k * m + m"
  shows "b mod m = b - k * m"
proof -
  have "b = k * m + (b - k * m)" using assms by simp
  moreover have "b - k * m < m" using assms by simp
  ultimately show ?thesis
    by (metis dm(2))
qed

lemma m64: "128 \<le> b \<Longrightarrow> b \<le> 191 \<Longrightarrow> b mod 64 = b - (128 :: nat)"
  using mod_off [of 2 64 b] by simp

lemma m32: "192 \<le> b \<Longrightarrow> b < 224 \<Longrightarrow> b mod 32 = b - (192 :: nat)"
  using mod_off [of 6 32 b] by simp

lemma m16: "224 \<le> b \<Longrightarrow> b < 240 \<Longrightarrow> b mod 16 = b - (224 :: nat)"
  using mod_off [of 14 16 b] by simp

lemma m8: "240 \<le> b \<Longrightarrow> b < 248 \<Longrightarrow> b mod 8 = b - (240 :: nat)"
  using mod_off [of 30 8 b] by simp

lemma enc2_aux:
  "2 \<le> x \<Longrightarrow> x < 32 \<Longrightarrow> y < 64 \<Longrightarrow>
   EncodeRune (x * 64 + y) = [char_of (192 + x), char_of (128 + y)]"
  by (simp add: EncodeRune_def)

lemma enc3_aux:
  "x < 16 \<Longrightarrow> y < 64 \<Longrightarrow> z < 64 \<Longrightarrow> 2048 \<le> x * 4096 + y * 64 + z \<Longrightarrow>
   \<not> (55296 \<le> x * 4096 + y * 64 + z \<and> x * 4096 + y * 64 + z \<le> 57343) \<Longrightarrow>
   EncodeRune (x * 4096 + y * 64 + z) = [char_of (224 + x), char_of (128 + y), char_of (128 + z)]"
  by (simp add: EncodeRune_def dm3)

lemma enc4_aux:
  "w < 8 \<Longrightarrow> x < 64 \<Longrightarrow> y < 64 \<Longrightarrow> z < 64 \<Longrightarrow> 65536 \<le> w * 262144 + x * 4096 + y * 64 + z \<Longrightarrow>
   w * 262144 + x * 4096 + y * 64 + z \<le> 1114111 \<Longrightarrow>
   EncodeRune (w * 262144 + x * 4096 + y * 64 + z)
     = [char_of (240 + w), char_of (128 + x), char_of (128 + y), char_of (128 + z)]"
  by (simp add: EncodeRune_def dm4)

lemma DecodeRune_cases:
  assumes "DecodeRune (c0 # cs) = (r, n)" "\<not> (r = RuneError \<and> n = 1)"
  shows "(byte c0 < 128 \<and> r = byte c0 \<and> n = 1)
   \<or> (\<exists>c1 t. cs = c1 # t \<and> n = 2 \<and> 194 \<le> byte c0 \<and> byte c0 < 224
        \<and> 128 \<le> byte c1 \<and> byte c1 \<le> 191
        \<and> r = (byte c0 mod 32) * 64 + byte c1 mod 64)
   \<or> (\<exists>c1 c2 t. cs = c1 # c2 # t \<and> n = 3 \<and> 224 \<le> byte c0 \<and> byte c0 < 240
        \<and> accept_lo (byte c0) \<le> byte c1 \<and> byte c1 \<le> accept_hi (byte c0) \<and> cont c2
        \<and> r = (byte c0 mod 16) * 4096 + (byte c1 mod 64) * 64 + byte c2 mod 64)
   \<or> (\<exists>c1 c2 c3 t. cs = c1 # c2 # c3 # t \<and> n = 4 \<and> 240 \<le> byte c0 \<and> byte c0 \<le> 244
        \<and> accept_lo (byte c0) \<le> byte c1 \<and> byte c1 \<le> accept_hi (byte c0) \<and> cont c2 \<and> cont c3
        \<and> r = (byte c0 mod 8) * 262144 + (byte c1 mod 64) * 4096
              + (byte c2 mod 64) * 64 + byte c3 mod 64)"
  using assms
  by (simp add: Let_def split: if_splits list.splits)
     (simp add: accept_lo_def accept_hi_def split: if_splits)

lemma accept_range:
  "accept_lo b \<le> x \<Longrightarrow> x \<le> accept_hi b \<Longrightarrow> 128 \<le> x \<and> x \<le> 191"
  by (simp add: accept_lo_def accept_hi_def split: if_splits)

text \<open>A rune that decodes well is encoded by the bytes it was decoded from.\<close>

lemma good2:
  assumes "194 \<le> byte c0" "byte c0 < 224" "128 \<le> byte c1" "byte c1 \<le> 191"
  shows "EncodeRune ((byte c0 mod 32) * 64 + byte c1 mod 64) = [c0, c1]"
    and "DecodeRune (c0 # c1 # t) = ((byte c0 mod 32) * 64 + byte c1 mod 64, 2)"
    and "128 \<le> (byte c0 mod 32) * 64 + byte c1 mod 64"
proof -
  define x where "x = byte c0 - 192"
  define y where "y = byte c1 - 128"
  have x: "byte c0 = 192 + x" "2 \<le> x" "x < 32" and y: "byte c1 = 128 + y" "y < 64"
    using assms by (simp_all add: x_def y_def)
  have m: "byte c0 mod 32 = x" "byte c1 mod 64 = y"
    using assms by (simp_all add: m32 m64 x_def y_def)
  have "EncodeRune (x * 64 + y) = [char_of (byte c0), char_of (byte c1)]"
    using enc2_aux [of x y] x y by simp
  then show "EncodeRune ((byte c0 mod 32) * 64 + byte c1 mod 64) = [c0, c1]"
    by (simp only: m char_of_byte)
  show "DecodeRune (c0 # c1 # t) = ((byte c0 mod 32) * 64 + byte c1 mod 64, 2)"
    using assms by (simp add: Let_def accept_lo_def accept_hi_def)
  show "128 \<le> (byte c0 mod 32) * 64 + byte c1 mod 64"
    unfolding m using x by simp
qed

lemma good3:
  assumes "224 \<le> byte c0" "byte c0 < 240"
    "accept_lo (byte c0) \<le> byte c1" "byte c1 \<le> accept_hi (byte c0)" "cont c2"
  shows "EncodeRune ((byte c0 mod 16) * 4096 + (byte c1 mod 64) * 64 + byte c2 mod 64)
           = [c0, c1, c2]"
    and "DecodeRune (c0 # c1 # c2 # t)
           = ((byte c0 mod 16) * 4096 + (byte c1 mod 64) * 64 + byte c2 mod 64, 3)"
    and "128 \<le> (byte c0 mod 16) * 4096 + (byte c1 mod 64) * 64 + byte c2 mod 64"
    and "(byte c0 mod 16) * 4096 + (byte c1 mod 64) * 64 + byte c2 mod 64 < 65536"
proof -
  define x where "x = byte c0 - 224"
  define y where "y = byte c1 - 128"
  define z where "z = byte c2 - 128"
  have c1: "128 \<le> byte c1" "byte c1 \<le> 191"
    using accept_range [OF assms(3,4)] by simp_all
  have c2: "128 \<le> byte c2" "byte c2 \<le> 191"
    using assms(5) by (simp_all add: cont_def)
  have x: "byte c0 = 224 + x" "x < 16" and y: "byte c1 = 128 + y" "y < 64"
    and z: "byte c2 = 128 + z" "z < 64"
    using assms(1,2) c1 c2 by (simp_all add: x_def y_def z_def)
  have m: "byte c0 mod 16 = x" "byte c1 mod 64 = y" "byte c2 mod 64 = z"
    using assms(1,2) c1 c2 by (simp_all add: m16 m64 x_def y_def z_def)
  have lo: "x = 0 \<longrightarrow> 32 \<le> y"
    using assms(3) x(1) y(1) by (simp add: accept_lo_def split: if_splits)
  have hi: "x = 13 \<longrightarrow> y < 32"
    using assms(4) x(1) y(1) by (simp add: accept_hi_def split: if_splits)
  have r1: "2048 \<le> x * 4096 + y * 64 + z"
    using lo by (cases "x = 0") simp_all
  have r2: "\<not> (55296 \<le> x * 4096 + y * 64 + z \<and> x * 4096 + y * 64 + z \<le> 57343)"
  proof (cases "x = 13")
    case True
    with hi y z show ?thesis by simp
  next
    case False
    then have "x < 13 \<or> 14 \<le> x" by arith
    then show ?thesis
      using y z by auto
  qed
  have "EncodeRune (x * 4096 + y * 64 + z)
          = [char_of (byte c0), char_of (byte c1), char_of (byte c2)]"
    using enc3_aux [OF x(2) y(2) z(2) r1 r2] x(1) y(1) z(1) by simp
  then show "EncodeRune ((byte c0 mod 16) * 4096 + (byte c1 mod 64) * 64 + byte c2 mod 64)
           = [c0, c1, c2]"
    by (simp only: m char_of_byte)
  show "DecodeRune (c0 # c1 # c2 # t)
           = ((byte c0 mod 16) * 4096 + (byte c1 mod 64) * 64 + byte c2 mod 64, 3)"
    using assms by (simp add: Let_def)
  show "128 \<le> (byte c0 mod 16) * 4096 + (byte c1 mod 64) * 64 + byte c2 mod 64"
    unfolding m using r1 by simp
  show "(byte c0 mod 16) * 4096 + (byte c1 mod 64) * 64 + byte c2 mod 64 < 65536"
    unfolding m using x(2) y(2) z(2) by simp
qed

lemma good4:
  assumes "240 \<le> byte c0" "byte c0 \<le> 244"
    "accept_lo (byte c0) \<le> byte c1" "byte c1 \<le> accept_hi (byte c0)" "cont c2" "cont c3"
  shows "EncodeRune ((byte c0 mod 8) * 262144 + (byte c1 mod 64) * 4096
              + (byte c2 mod 64) * 64 + byte c3 mod 64) = [c0, c1, c2, c3]"
    and "DecodeRune (c0 # c1 # c2 # c3 # t)
           = ((byte c0 mod 8) * 262144 + (byte c1 mod 64) * 4096
              + (byte c2 mod 64) * 64 + byte c3 mod 64, 4)"
    and "65536 \<le> (byte c0 mod 8) * 262144 + (byte c1 mod 64) * 4096
              + (byte c2 mod 64) * 64 + byte c3 mod 64"
proof -
  define w where "w = byte c0 - 240"
  define x where "x = byte c1 - 128"
  define y where "y = byte c2 - 128"
  define z where "z = byte c3 - 128"
  have c1: "128 \<le> byte c1" "byte c1 \<le> 191"
    using accept_range [OF assms(3,4)] by simp_all
  have c2: "128 \<le> byte c2" "byte c2 \<le> 191" and c3: "128 \<le> byte c3" "byte c3 \<le> 191"
    using assms(5,6) by (simp_all add: cont_def)
  have w: "byte c0 = 240 + w" "w < 5" and x: "byte c1 = 128 + x" "x < 64"
    and y: "byte c2 = 128 + y" "y < 64" and z: "byte c3 = 128 + z" "z < 64"
    using assms(1,2) c1 c2 c3 by (simp_all add: w_def x_def y_def z_def)
  have m: "byte c0 mod 8 = w" "byte c1 mod 64 = x" "byte c2 mod 64 = y" "byte c3 mod 64 = z"
    using assms(1,2) c1 c2 c3 by (simp_all add: m8 m64 w_def x_def y_def z_def)
  have lo: "w = 0 \<longrightarrow> 16 \<le> x"
    using assms(3) w(1) x(1) by (simp add: accept_lo_def split: if_splits)
  have hi: "w = 4 \<longrightarrow> x < 16"
    using assms(4) w(1) x(1) by (simp add: accept_hi_def split: if_splits)
  have r1: "65536 \<le> w * 262144 + x * 4096 + y * 64 + z"
    using lo by (cases "w = 0") simp_all
  have r2: "w * 262144 + x * 4096 + y * 64 + z \<le> 1114111"
  proof (cases "w = 4")
    case True
    with hi y z show ?thesis by simp
  next
    case False
    with w(2) have "w \<le> 3" by simp
    then show ?thesis
      using x y z by simp
  qed
  have w8: "w < 8" using w(2) by simp
  have "EncodeRune (w * 262144 + x * 4096 + y * 64 + z)
          = [char_of (byte c0), char_of (byte c1), char_of (byte c2), char_of (byte c3)]"
    using enc4_aux [OF w8 x(2) y(2) z(2) r1 r2] w(1) x(1) y(1) z(1) by simp
  then show "EncodeRune ((byte c0 mod 8) * 262144 + (byte c1 mod 64) * 4096
              + (byte c2 mod 64) * 64 + byte c3 mod 64) = [c0, c1, c2, c3]"
    by (simp only: m char_of_byte)
  show "DecodeRune (c0 # c1 # c2 # c3 # t)
           = ((byte c0 mod 8) * 262144 + (byte c1 mod 64) * 4096
              + (byte c2 mod 64) * 64 + byte c3 mod 64, 4)"
    using assms by (simp add: Let_def)
  show "65536 \<le> (byte c0 mod 8) * 262144 + (byte c1 mod 64) * 4096
              + (byte c2 mod 64) * 64 + byte c3 mod 64"
    unfolding m using r1 by simp
qed

lemma DecodeRune_good:
  assumes "DecodeRune (c0 # cs) = (r, n)" "\<not> (r = RuneError \<and> n = 1)"
  shows "EncodeRune r = take n (c0 # cs)"
    and "DecodeRune (take n (c0 # cs) @ t) = (r, n)"
    and "length (take n (c0 # cs)) = n"
    and "1 \<le> n"
    and "(r < 128) = (byte c0 < 128)"
proof -
  from DecodeRune_cases [OF assms] consider
    (one) "byte c0 < 128" "r = byte c0" "n = 1"
  | (two) c1 t' where "cs = c1 # t'" "n = 2" "194 \<le> byte c0" "byte c0 < 224"
        "128 \<le> byte c1" "byte c1 \<le> 191" "r = (byte c0 mod 32) * 64 + byte c1 mod 64"
  | (three) c1 c2 t' where "cs = c1 # c2 # t'" "n = 3" "224 \<le> byte c0" "byte c0 < 240"
        "accept_lo (byte c0) \<le> byte c1" "byte c1 \<le> accept_hi (byte c0)" "cont c2"
        "r = (byte c0 mod 16) * 4096 + (byte c1 mod 64) * 64 + byte c2 mod 64"
  | (four) c1 c2 c3 t' where "cs = c1 # c2 # c3 # t'" "n = 4" "240 \<le> byte c0" "byte c0 \<le> 244"
        "accept_lo (byte c0) \<le> byte c1" "byte c1 \<le> accept_hi (byte c0)" "cont c2" "cont c3"
        "r = (byte c0 mod 8) * 262144 + (byte c1 mod 64) * 4096
              + (byte c2 mod 64) * 64 + byte c3 mod 64"
    by blast
  then have "EncodeRune r = take n (c0 # cs) \<and> DecodeRune (take n (c0 # cs) @ t) = (r, n)
    \<and> length (take n (c0 # cs)) = n \<and> 1 \<le> n \<and> (r < 128) = (byte c0 < 128)"
  proof cases
    case one
    then show ?thesis
      by (simp add: EncodeRune_def char_of_byte)
  next
    case two
    from good2 [OF two(3-6)] two(1,2,3,7) show ?thesis
      by simp
  next
    case three
    from good3 [OF three(3-7)] three(1,2,3,8) show ?thesis
      by simp
  next
    case four
    from good4 [OF four(3-8)] four(1,2,3,9) show ?thesis
      by simp
  qed
  then show "EncodeRune r = take n (c0 # cs)"
    and "DecodeRune (take n (c0 # cs) @ t) = (r, n)"
    and "length (take n (c0 # cs)) = n"
    and "1 \<le> n"
    and "(r < 128) = (byte c0 < 128)"
    by simp_all
qed

lemma DecodeRune_bad:
  assumes "DecodeRune (c0 # cs) = (r, n)" "r = RuneError \<and> n = 1"
  shows "128 \<le> byte c0"
  using assms by (auto simp: Let_def RuneError_def split: if_splits)

section \<open>Facts about the JSON form\<close>

subsection \<open>String literals\<close>

declare unquote.simps [simp del]

lemma byte_dquote: "byte dquote = 34"
  by (simp add: byte_def dquote_def)

lemma byte_bslash: "byte bslash = 92"
  by (simp add: byte_def bslash_def)

lemma unq_plain:
  assumes "32 \<le> byte c" "byte c < 128" "byte c \<noteq> 34" "byte c \<noteq> 92"
  shows "unquote (c # t) = prepend [c] (unquote t)"
proof -
  have "c \<noteq> dquote" "c \<noteq> bslash"
    using assms(3,4) byte_dquote byte_bslash by auto
  then show ?thesis
    using assms(1,2) by (subst unquote.simps(2)) simp
qed

lemma unq_simple:
  assumes "simple_escape e = Some x" "e \<noteq> CHR ''u''"
  shows "unquote (bslash # e # t) = prepend [x] (unquote t)"
proof -
  have "bslash \<noteq> dquote"
    by (simp add: bslash_def dquote_def)
  then show ?thesis
    using assms by (subst unquote.simps(2)) simp
qed

lemma unq_u4:
  assumes "hex_val h1 = Some x1" "hex_val h2 = Some x2" "hex_val h3 = Some x3" "hex_val h4 = Some x4"
    and "\<not> IsSurrogate (((x1 * 16 + x2) * 16 + x3) * 16 + x4)"
  shows "unquote (bslash # CHR ''u'' # h1 # h2 # h3 # h4 # t)
    = prepend (EncodeRune (((x1 * 16 + x2) * 16 + x3) * 16 + x4)) (unquote t)"
proof -
  have "bslash \<noteq> dquote"
    by (simp add: bslash_def dquote_def)
  then show ?thesis
    using assms by (subst unquote.simps(2)) simp
qed

lemma unq_multi:
  assumes "128 \<le> byte c"
  shows "unquote (c # cs) = prepend (EncodeRune (fst (DecodeRune (c # cs))))
            (unquote (drop (snd (DecodeRune (c # cs)) - 1) cs))"
proof -
  have "c \<noteq> dquote" "c \<noteq> bslash"
    using assms byte_dquote byte_bslash by auto
  then show ?thesis
    using assms by (subst unquote.simps(2)) simp
qed

lemma hex_val_hex_digit: "k < 16 \<Longrightarrow> hex_val (hex_digit k) = Some k"
proof -
  assume "k < 16"
  then have "k = 0 \<or> k = 1 \<or> k = 2 \<or> k = 3 \<or> k = 4 \<or> k = 5 \<or> k = 6 \<or> k = 7 \<or> k = 8
     \<or> k = 9 \<or> k = 10 \<or> k = 11 \<or> k = 12 \<or> k = 13 \<or> k = 14 \<or> k = 15"
    by arith
  then show ?thesis
    by (elim disjE) (simp_all add: hex_digit_def hex_val_def byte_def)
qed

lemma char_eq_byte: "(c = d) = (byte c = byte d)"
  by (auto simp: byte_def)

lemma unq_ascii:
  assumes "byte c0 < 128"
  shows "unquote (esc_rune (byte c0, 1, [c0]) @ t) = prepend [c0] (unquote t)"
proof -
  let ?r = "byte c0"
  consider (safe) "htmlSafe ?r"
    | (q) "?r = 34" | (b) "?r = 92" | (c8) "?r = 8" | (c12) "?r = 12" | (c10) "?r = 10"
    | (c13) "?r = 13" | (c9) "?r = 9"
    | (other) "\<not> htmlSafe ?r" "?r \<noteq> 34" "?r \<noteq> 92" "?r \<noteq> 8" "?r \<noteq> 12" "?r \<noteq> 10"
        "?r \<noteq> 13" "?r \<noteq> 9"
    by blast
  then show ?thesis
  proof cases
    case safe
    then have "32 \<le> ?r" "?r < 128" "?r \<noteq> 34" "?r \<noteq> 92"
      by (simp_all add: htmlSafe_def)
    from unq_plain [OF this] safe assms show ?thesis
      by (simp add: esc_rune_def)
  next
    case q
    then have c: "c0 = dquote"
      by (simp add: char_eq_byte byte_dquote)
    have "simple_escape dquote = Some dquote" "dquote \<noteq> CHR ''u''"
      by (simp_all add: simple_escape_def dquote_def)
    from unq_simple [OF this] q c show ?thesis
      by (simp add: esc_rune_def htmlSafe_def)
  next
    case b
    then have c: "c0 = bslash"
      by (simp add: char_eq_byte byte_bslash)
    have "simple_escape bslash = Some bslash" "bslash \<noteq> CHR ''u''"
      by (simp_all add: simple_escape_def bslash_def)
    from unq_simple [OF this] b c show ?thesis
      by (simp add: esc_rune_def htmlSafe_def)
  next
    case c8
    then have c: "c0 = CHR 0x08"
      by (simp add: char_eq_byte byte_def)
    have "simple_escape CHR ''b'' = Some (CHR 0x08)" "CHR ''b'' \<noteq> CHR ''u''"
      by (simp_all add: simple_escape_def bslash_def dquote_def)
    from unq_simple [OF this] c8 c show ?thesis
      by (simp add: esc_rune_def htmlSafe_def)
  next
    case c12
    then have c: "c0 = CHR 0x0C"
      by (simp add: char_eq_byte byte_def)
    have "simple_escape CHR ''f'' = Some (CHR 0x0C)" "CHR ''f'' \<noteq> CHR ''u''"
      by (simp_all add: simple_escape_def bslash_def dquote_def)
    from unq_simple [OF this] c12 c show ?thesis
      by (simp add: esc_rune_def htmlSafe_def)
  next
    case c10
    then have c: "c0 = CHR 0x0A"
      by (simp add: char_eq_byte byte_def)
    have "simple_escape CHR ''n'' = Some (CHR 0x0A)" "CHR ''n'' \<noteq> CHR ''u''"
      by (simp_all add: simple_escape_def bslash_def dquote_def)
    from unq_simple [OF this] c10 c show ?thesis
      by (simp add: esc_rune_def htmlSafe_def)
  next
    case c13
    then have c: "c0 = CHR 0x0D"
      by (simp add: char_eq_byte byte_def)
    have "simple_escape CHR ''r'' = Some (CHR 0x0D)" "CHR ''r'' \<noteq> CHR ''u''"
      by (simp_all add: simple_escape_def bslash_def dquote_def)
    from unq_simple [OF this] c13 c show ?thesis
      by (simp add: esc_rune_def htmlSafe_def)
  next
    case c9
    then have c: "c0 = CHR 0x09"
      by (simp add: char_eq_byte byte_def)
    have "simple_escape CHR ''t'' = Some (CHR 0x09)" "CHR ''t'' \<noteq> CHR ''u''"
      by (simp_all add: simple_escape_def bslash_def dquote_def)
    from unq_simple [OF this] c9 c show ?thesis
      by (simp add: esc_rune_def htmlSafe_def)
  next
    case other
    have h0: "hex_val CHR ''0'' = Some 0"
      by (simp add: hex_val_def byte_def)
    have d: "?r div 16 < 16" "?r mod 16 < 16"
      using assms by simp_all
    have v: "((0 * 16 + 0) * 16 + ?r div 16) * 16 + ?r mod 16 = ?r"
      by simp
    have ns: "\<not> IsSurrogate (((0 * 16 + 0) * 16 + ?r div 16) * 16 + ?r mod 16)"
      unfolding v using assms by (simp add: IsSurrogate_def)
    have e: "EncodeRune ?r = [c0]"
      using assms by (simp add: EncodeRune_def char_of_byte)
    from unq_u4 [OF h0 h0 hex_val_hex_digit [OF d(1)] hex_val_hex_digit [OF d(2)] ns, of t]
    have "unquote (bslash # CHR ''u'' # CHR ''0'' # CHR ''0'' # hex_digit (?r div 16)
             # hex_digit (?r mod 16) # t) = prepend [c0] (unquote t)"
      unfolding v e .
    then show ?thesis
      using other assms by (simp add: esc_rune_def)
  qed
qed

lemma hex_f: "hex_val CHR ''f'' = Some 15" and hex_d: "hex_val CHR ''d'' = Some 13"
  and hex_2: "hex_val CHR ''2'' = Some 2" and hex_0: "hex_val CHR ''0'' = Some 0"
  by (simp_all add: hex_val_def byte_def)

lemma unq_bad:
  "unquote (esc_rune (RuneError, 1, bs) @ t) = prepend (EncodeRune RuneError) (unquote t)"
proof -
  have ns: "\<not> IsSurrogate (((15 * 16 + 15) * 16 + 15) * 16 + 13)"
    by (simp add: IsSurrogate_def)
  from unq_u4 [OF hex_f hex_f hex_f hex_d ns, of t] show ?thesis
    by (simp add: esc_rune_def RuneError_def)
qed

lemma unq_seps:
  assumes "r = 8232 \<or> r = 8233"
  shows "unquote (esc_rune (r, n, bs) @ t) = prepend (EncodeRune r) (unquote t)"
proof -
  have d: "r mod 16 < 16" by simp
  have v: "((2 * 16 + 0) * 16 + 2) * 16 + r mod 16 = r"
    using assms by auto
  have ns: "\<not> IsSurrogate (((2 * 16 + 0) * 16 + 2) * 16 + r mod 16)"
    unfolding v using assms by (auto simp: IsSurrogate_def)
  from unq_u4 [OF hex_2 hex_0 hex_2 hex_val_hex_digit [OF d] ns, of t]
  have "unquote (bslash # CHR ''u'' # CHR ''2'' # CHR ''0'' # CHR ''2'' # hex_digit (r mod 16) # t)
      = prepend (EncodeRune r) (unquote t)"
    unfolding v .
  then show ?thesis
    using assms by (auto simp: esc_rune_def RuneError_def)
qed

lemma unquote_esc_rune:
  assumes "DecodeRune (c0 # cs) = (r, n)"
  shows "unquote (esc_rune (r, n, take n (c0 # cs)) @ t) = prepend (EncodeRune r) (unquote t)"
proof (cases "r = RuneError \<and> n = 1")
  case True
  then show ?thesis
    using unq_bad [of "take n (c0 # cs)" t] by simp
next
  case False
  note good = DecodeRune_good [OF assms False]
  show ?thesis
  proof (cases "byte c0 < 128")
    case True
    with assms have rn: "r = byte c0" "n = 1"
      by (simp_all add: Let_def)
    have "EncodeRune r = [c0]"
      using good(1) rn by simp
    with unq_ascii [OF True, of t] rn show ?thesis
      by simp
  next
    case ge: False
    then have r128: "\<not> r < 128"
      using good(5) by simp
    show ?thesis
    proof (cases "r = 8232 \<or> r = 8233")
      case True
      then show ?thesis
        by (rule unq_seps)
    next
      case nsep: False
      have esc: "esc_rune (r, n, take n (c0 # cs)) = take n (c0 # cs)"
        using r128 False nsep by (simp add: esc_rune_def)
      obtain k where k: "n = Suc k"
        using good(4) by (cases n) simp_all
      have len: "length (take k cs) = k"
        using good(3) k by simp
      have dec: "DecodeRune (c0 # take k cs @ t) = (r, n)"
        using good(2) [of t] k by simp
      have "unquote (c0 # take k cs @ t)
          = prepend (EncodeRune r) (unquote (drop k (take k cs @ t)))"
        using unq_multi [of c0 "take k cs @ t"] ge dec k by simp
      also have "drop k (take k cs @ t) = t"
        using len by simp
      finally show ?thesis
        using esc k by simp
    qed
  qed
qed

lemma unquote_escaped:
  "unquote (concat (map esc_rune (runes s)) @ dquote # rest) = Some (coerce_utf8 s, rest)"
proof (induction s rule: runes.induct)
  case 1
  have "unquote (dquote # rest) = Some ([], rest)"
    by (subst unquote.simps(2)) simp
  then show ?case
    by (simp add: coerce_utf8_def)
next
  case (2 c cs)
  obtain r n where d: "DecodeRune (c # cs) = (r, n)"
    by (cases "DecodeRune (c # cs)")
  from 2 [OF refl d [symmetric]]
  have ih: "unquote (concat (map esc_rune (runes (drop (n - 1) cs))) @ dquote # rest)
      = Some (coerce_utf8 (drop (n - 1) cs), rest)" .
  have "unquote (esc_rune (r, n, take n (c # cs))
          @ (concat (map esc_rune (runes (drop (n - 1) cs))) @ dquote # rest))
      = prepend (EncodeRune r) (Some (coerce_utf8 (drop (n - 1) cs), rest))"
    using unquote_esc_rune [OF d] ih by simp
  then show ?case
    using d by (simp add: coerce_utf8_def)
qed

lemma coerce_utf8_valid: "ValidString s \<Longrightarrow> coerce_utf8 s = s"
proof (induction s rule: runes.induct)
  case 1
  show ?case by (simp add: coerce_utf8_def)
next
  case (2 c cs)
  obtain r n where d: "DecodeRune (c # cs) = (r, n)"
    by (cases "DecodeRune (c # cs)")
  from "2.prems" d have nb: "\<not> (r = RuneError \<and> n = 1)"
    and v: "ValidString (drop (n - 1) cs)"
    by (simp_all add: ValidString_def bad_rune_def)
  from "2.IH" [OF refl d [symmetric] v]
  have ih: "coerce_utf8 (drop (n - 1) cs) = drop (n - 1) cs" .
  note good = DecodeRune_good [OF d nb]
  obtain k where k: "n = Suc k"
    using good(4) by (cases n) simp_all
  have "coerce_utf8 (c # cs) = EncodeRune r @ coerce_utf8 (drop (n - 1) cs)"
    using d by (simp add: coerce_utf8_def)
  also have "\<dots> = take n (c # cs) @ drop (n - 1) cs"
    using good(1) ih by simp
  also have "\<dots> = c # cs"
    using k by simp
  finally show ?case .
qed

subsection \<open>Numbers\<close>

lemma char0: "char_of (48 :: nat) = CHR ''0''"
  by code_simp

lemma digit_char_0: "digit_char 0 = CHR ''0''"
  by (simp add: digit_char_def char0)

lemma digit_char_nonzero: "0 < d \<Longrightarrow> d < 10 \<Longrightarrow> digit_char d \<noteq> CHR ''0''"
proof
  assume d: "0 < d" "d < 10" and e: "digit_char d = CHR ''0''"
  from e have "byte (digit_char d) = byte (CHR ''0'')" by simp
  with d show False
    by (simp add: digit_char_def byte_def)
qed

lemma digits_no_leading_zero: "digits n = [CHR ''0''] \<or> hd (digits n) \<noteq> CHR ''0''"
proof (induction n rule: digits.induct)
  case (1 n)
  show ?case
  proof (cases "n < 10")
    case True
    then show ?thesis
      by (cases "n = 0") (simp_all add: digits_simps_small digit_char_0 digit_char_nonzero)
  next
    case False
    then have pos: "0 < n div 10" by simp
    have "digits (n div 10) \<noteq> [CHR ''0'']"
    proof
      assume "digits (n div 10) = [CHR ''0'']"
      then have "dec_val (digits (n div 10)) = dec_val [CHR ''0'']" by simp
      moreover have "dec_val [CHR ''0''] = 0"
        by (simp add: dec_val_def digit_val_def)
      ultimately have "n div 10 = 0"
        by (simp only: dec_val_digits)
      with pos show False by simp
    qed
    with 1 [OF False] have "hd (digits (n div 10)) \<noteq> CHR ''0''" by simp
    then show ?thesis
      using False digits_not_Nil [of "n div 10"] by (simp add: digits_simps_large)
  qed
qed

lemma digits_list_all: "list_all is_digit (digits n)"
  using digits_all_digits [of n] by (simp add: list_all_iff)

lemma takeWhile_digits:
  assumes "list_all is_digit ds" "\<not> is_digit c"
  shows "takeWhile is_digit (ds @ c # rest) = ds" "dropWhile is_digit (ds @ c # rest) = c # rest"
  using assms by (induction ds) simp_all

lemma scan_int_digits:
  assumes "\<not> is_digit c"
  shows "scan_int (digits n @ c # rest) = Some (digits n, c # rest)"
proof (cases "digits n = [CHR ''0'']")
  case True
  then show ?thesis by (simp add: scan_int_def)
next
  case False
  with digits_no_leading_zero [of n] have nz: "hd (digits n) \<noteq> CHR ''0''" by simp
  obtain d ds where ds: "digits n = d # ds"
    using digits_not_Nil [of n] by (cases "digits n") simp_all
  have all: "is_digit d" "list_all is_digit ds"
    using digits_list_all [of n] ds by simp_all
  from nz ds have "d \<noteq> CHR ''0''" by simp
  then show ?thesis
    using ds all takeWhile_digits [OF all(2) assms, of rest] by (simp add: scan_int_def)
qed

lemma not_digit_comma: "\<not> is_digit CHR '',''"
  by (simp add: is_digit_def)

lemma scan_number_digits:
  "scan_number (digits n @ CHR '','' # rest) = Some (digits n, CHR '','' # rest)"
proof -
  obtain d ds where ds: "digits n = d # ds"
    using digits_not_Nil [of n] by (cases "digits n") simp_all
  have "is_digit d"
    using digits_list_all [of n] ds by simp
  then have "d \<noteq> CHR ''-''"
    using not_digit_minus by auto
  then have pre: "(case digits n @ CHR '','' # rest of [] \<Rightarrow> ([], digits n @ CHR '','' # rest)
      | c # cs \<Rightarrow> if c = CHR ''-'' then ([c], cs) else ([], digits n @ CHR '','' # rest))
      = ([], digits n @ CHR '','' # rest)"
    using ds by simp
  show ?thesis
    unfolding scan_number_def pre
    by (simp add: scan_int_digits [OF not_digit_comma] scan_frac_def scan_exp_def)
qed

lemma scan_number_FormatInt:
  "scan_number (FormatInt i @ CHR '','' # rest) = Some (FormatInt i, CHR '','' # rest)"
proof (cases "i < 0")
  case True
  then show ?thesis
    by (simp add: FormatInt_def scan_number_def scan_int_digits [OF not_digit_comma]
        scan_frac_def scan_exp_def)
next
  case False
  then show ?thesis
    by (simp add: FormatInt_def scan_number_digits)
qed

lemma FormatInt_hd:
  "\<exists>c cs. FormatInt i = c # cs \<and> (c = CHR ''-'' \<or> is_digit c)"
proof (cases "i < 0")
  case True
  then show ?thesis by (simp add: FormatInt_def)
next
  case False
  obtain d ds where ds: "digits (nat i) = d # ds"
    using digits_not_Nil [of "nat i"] by (cases "digits (nat i)") simp_all
  have "is_digit d"
    using digits_list_all [of "nat i"] ds by simp
  with False ds show ?thesis by (simp add: FormatInt_def)
qed

lemma ParseInt_FormatInt: "ParseInt (FormatInt (sint w)) = Some (w :: int64)"
proof (cases "sint w < 0")
  case True
  have lo: "- (2 ^ 63) \<le> sint w"
    using sint_ge [of w] by simp
  let ?m = "nat (- sint w)"
  have m: "?m \<le> 2 ^ 63"
    using lo True by (simp add: nat_le_iff)
  have neg_m: "- int ?m = sint w"
    using True by simp
  have "ParseInt (CHR ''-'' # digits ?m) = Some (word_of_int (- int ?m))"
    using m by (simp add: ParseInt_def digits_not_Nil digits_list_all dec_val_digits)
  then show ?thesis
    using True by (simp add: FormatInt_def neg_m del: of_int_minus)
next
  case False
  have hi: "sint w < 2 ^ 63"
    using sint_lt [of w] by simp
  let ?m = "nat (sint w)"
  have m: "?m < 2 ^ 63"
    using hi False by (simp add: nat_less_iff)
  obtain d ds where ds: "digits ?m = d # ds"
    using digits_not_Nil [of ?m] by (cases "digits ?m") simp_all
  have dd: "is_digit d" "list_all is_digit ds"
    using digits_list_all [of ?m] ds by simp_all
  have nd: "d \<noteq> CHR ''-''" "d \<noteq> CHR ''+''"
    using dd(1) by (auto simp: is_digit_def)
  have dv: "dec_val (d # ds) = ?m"
    using dec_val_digits [of ?m] ds by simp
  have "ParseInt (d # ds) = Some (word_of_int (int ?m))"
    using nd dd m by (simp add: ParseInt_def dv)
  then show ?thesis
    using False ds by (simp add: FormatInt_def)
qed

subsection \<open>The encoded record\<close>

lemma skip_ws_nonspace: "\<not> is_space c \<Longrightarrow> skip_ws (c # cs) = c # cs"
  by (simp add: skip_ws_def)

lemma not_space_dquote: "\<not> is_space dquote"
  by (simp add: is_space_def dquote_def)

lemma parse_value_string:
  "parse_value (Suc k) d (appendString s @ rest) = Some (JString (coerce_utf8 s), rest)"
proof -
  have q: "dquote \<noteq> CHR ''{''" "dquote \<noteq> CHR ''[''"
    by (simp_all add: dquote_def)
  show ?thesis
    using q by (simp add: appendString_def skip_ws_nonspace [OF not_space_dquote] unquote_escaped)
qed

lemma parse_value_number:
  "parse_value (Suc k) d (FormatInt i @ CHR '','' # rest)
     = Some (JNumber (FormatInt i), CHR '','' # rest)"
proof -
  from FormatInt_hd [of i] obtain c cs where
    f: "FormatInt i = c # cs" and c: "c = CHR ''-'' \<or> is_digit c"
    by blast
  from c have ns: "\<not> is_space c"
    by (auto simp: is_space_def is_digit_def)
  from c have ne: "c \<noteq> CHR ''{''" "c \<noteq> CHR ''[''" "c \<noteq> dquote" "c \<noteq> CHR ''t''"
    "c \<noteq> CHR ''f''" "c \<noteq> CHR ''n''"
    by (auto simp: is_digit_def dquote_def)
  have sn: "scan_number (c # cs @ CHR '','' # rest) = Some (c # cs, CHR '','' # rest)"
    using scan_number_FormatInt [of i rest] f by simp
  show ?thesis
    unfolding f using ns ne c sn
    by (simp add: skip_ws_nonspace)
qed

lemma not_space_punct: "\<not> is_space CHR '':''" "\<not> is_space CHR '',''" "\<not> is_space CHR ''}''"
  by (simp_all add: is_space_def)

lemma key_literal:
  assumes "ValidString name"
  shows "unquote (tl (appendString name) @ rest) = Some (name, rest)"
  using unquote_escaped [of name rest] coerce_utf8_valid [OF assms]
  by (simp add: appendString_def)

lemma members_comma:
  assumes "ValidString name"
    and "parse_value k d (val @ CHR '','' # rest) = Some (v, CHR '','' # rest)"
  shows "parse_members (Suc k) d (appendString name @ CHR '':'' # val @ CHR '','' # rest)
    = (case parse_members k d rest of
         None \<Rightarrow> None
       | Some (kvs, r) \<Rightarrow> Some ((name, v) # kvs, r))"
proof -
  have a: "appendString name @ CHR '':'' # val @ CHR '','' # rest
      = dquote # (tl (appendString name) @ CHR '':'' # val @ CHR '','' # rest)"
    by (simp add: appendString_def)
  show ?thesis
    unfolding a
    by (simp add: skip_ws_nonspace not_space_dquote not_space_punct key_literal [OF assms(1)]
        assms(2))
qed

lemma members_last:
  assumes "ValidString name"
    and "parse_value k d (val @ CHR ''}'' # rest) = Some (v, CHR ''}'' # rest)"
  shows "parse_members (Suc k) d (appendString name @ CHR '':'' # val @ CHR ''}'' # rest)
    = Some ([(name, v)], rest)"
proof -
  have a: "appendString name @ CHR '':'' # val @ CHR ''}'' # rest
      = dquote # (tl (appendString name) @ CHR '':'' # val @ CHR ''}'' # rest)"
    by (simp add: appendString_def)
  show ?thesis
    unfolding a
    by (simp add: skip_ws_nonspace not_space_dquote not_space_punct key_literal [OF assms(1)]
        assms(2))
qed

declare parse_value.simps [simp del] parse_members.simps [simp del] parse_elems.simps [simp del]

lemma parse_object:
  assumes "parse_members k (Suc d) (dquote # s) = Some (kvs, r)" "d < maxNestingDepth"
  shows "parse_value (Suc k) d (CHR ''{'' # dquote # s) = Some (JObject kvs, r)"
proof -
  have a: "\<not> is_space CHR ''{''" "dquote \<noteq> CHR ''}''"
    by (simp_all add: is_space_def dquote_def)
  show ?thesis
    using assms a
    by (subst parse_value.simps(2)) (simp add: skip_ws_nonspace not_space_dquote)
qed

lemma valid_names:
  "ValidString ''id''" "ValidString ''username''" "ValidString ''email''"
  "ValidString ''created_at''" "ValidString ''updated_at''"
  by (simp_all add: ValidString_ascii byte_def)

lemma parse_Marshal:
  assumes "Marshal u = Inr data"
  shows "parse_value (Suc (Suc (Suc (Suc (Suc (Suc (Suc k))))))) 0 data
     = Some (JObject
         [(''id'', JNumber (FormatInt (sint (ID u)))),
          (''username'', JString (coerce_utf8 (Username u))),
          (''email'', JString (coerce_utf8 (Email u))),
          (''created_at'', JString (coerce_utf8 (CreatedAt u))),
          (''updated_at'', JString (coerce_utf8 (UpdatedAt u)))], [])"
proof -
  let ?e5 = "appendString ''updated_at'' @ CHR '':'' # appendString (UpdatedAt u) @ ''}''"
  let ?e4 = "appendString ''created_at'' @ CHR '':'' # appendString (CreatedAt u) @ CHR '','' # ?e5"
  let ?e3 = "appendString ''email'' @ CHR '':'' # appendString (Email u) @ CHR '','' # ?e4"
  let ?e2 = "appendString ''username'' @ CHR '':'' # appendString (Username u) @ CHR '','' # ?e3"
  let ?e1 = "appendString ''id'' @ CHR '':'' # FormatInt (sint (ID u)) @ CHR '','' # ?e2"
  have t: "data = CHR ''{'' # ?e1"
    using assms by (auto simp: Marshal_def user_fields_def encode_field_def field_value_def)
  have m5: "parse_members (Suc (Suc k)) (Suc 0) ?e5
      = Some ([(''updated_at'', JString (coerce_utf8 (UpdatedAt u)))], [])"
    by (rule members_last [OF valid_names(5) parse_value_string])
  have m4: "parse_members (Suc (Suc (Suc k))) (Suc 0) ?e4
      = Some ([(''created_at'', JString (coerce_utf8 (CreatedAt u))),
               (''updated_at'', JString (coerce_utf8 (UpdatedAt u)))], [])"
    by (subst members_comma [OF valid_names(4) parse_value_string]) (simp add: m5)
  have m3: "parse_members (Suc (Suc (Suc (Suc k)))) (Suc 0) ?e3
      = Some ([(''email'', JString (coerce_utf8 (Email u))),
               (''created_at'', JString (coerce_utf8 (CreatedAt u))),
               (''updated_at'', JString (coerce_utf8 (UpdatedAt u)))], [])"
    by (subst members_comma [OF valid_names(3) parse_value_string]) (simp add: m4)
  have m2: "parse_members (Suc (Suc (Suc (Suc (Suc k))))) (Suc 0) ?e2
      = Some ([(''username'', JString (coerce_utf8 (Username u))),
               (''email'', JString (coerce_utf8 (Email u))),
               (''created_at'', JString (coerce_utf8 (CreatedAt u))),
               (''updated_at'', JString (coerce_utf8 (UpdatedAt u)))], [])"
    by (subst members_comma [OF valid_names(2) parse_value_string]) (simp add: m3)
  have m1: "parse_members (Suc (Suc (Suc (Suc (Suc (Suc k)))))) (Suc 0) ?e1
      = Some ([(''id'', JNumber (FormatInt (sint (ID u)))),
               (''username'', JString (coerce_utf8 (Username u))),
               (''email'', JString (coerce_utf8 (Email u))),
               (''created_at'', JString (coerce_utf8 (CreatedAt u))),
               (''updated_at'', JString (coerce_utf8 (UpdatedAt u)))], [])"
    by (subst members_comma [OF valid_names(1) parse_value_number]) (simp add: m2)
  obtain x where x: "?e1 = dquote # x"
    by (simp add: appendString_def)
  have "parse_value (Suc (Suc (Suc (Suc (Suc (Suc (Suc k))))))) 0 (CHR ''{'' # dquote # x)
      = Some (JObject
         [(''id'', JNumber (FormatInt (sint (ID u)))),
          (''username'', JString (coerce_utf8 (Username u))),
          (''email'', JString (coerce_utf8 (Email u))),
          (''created_at'', JString (coerce_utf8 (CreatedAt u))),
          (''updated_at'', JString (coerce_utf8 (UpdatedAt u)))], [])"
    by (rule parse_object) (simp_all add: m1 [unfolded x] maxNestingDepth_def)
  then show ?thesis
    unfolding t x .
qed

lemma Marshal_length:
  assumes "Marshal u = Inr data"
  shows "6 \<le> length data"
  using assms
  by (auto simp: Marshal_def user_fields_def encode_field_def field_value_def appendString_def)

lemma json_parse_Marshal:
  assumes "Marshal u = Inr data"
  shows "json_parse data
     = Some (JObject
         [(''id'', JNumber (FormatInt (sint (ID u)))),
          (''username'', JString (coerce_utf8 (Username u))),
          (''email'', JString (coerce_utf8 (Email u))),
          (''created_at'', JString (coerce_utf8 (CreatedAt u))),
          (''updated_at'', JString (coerce_utf8 (UpdatedAt u)))])"
proof -
  define k where "k = length data - 6"
  have "length data = Suc (Suc (Suc (Suc (Suc (Suc k)))))"
    using Marshal_length [OF assms] by (simp add: k_def)
  then show ?thesis
    using parse_Marshal [OF assms, of k] by (simp add: json_parse_def skip_ws_def)
qed

lemma find_field_names:
  "find_field ''id'' = Some F_id" "find_field ''username'' = Some F_username"
  "find_field ''email'' = Some F_email" "find_field ''created_at'' = Some F_created_at"
  "find_field ''updated_at'' = Some F_updated_at"
  by (simp_all add: find_field_def user_fields_def)

lemma Unmarshal_Marshal:
  assumes "Marshal u = Inr data"
  shows "Unmarshal data dest
    = (None, \<lparr>ID = ID u, Username = coerce_utf8 (Username u), Email = coerce_utf8 (Email u),
              CreatedAt = coerce_utf8 (CreatedAt u), UpdatedAt = coerce_utf8 (UpdatedAt u)\<rparr>)"
  by (cases dest)
     (simp add: Unmarshal_def json_parse_Marshal [OF assms] find_field_names
        store_int64_def store_string_def ParseInt_FormatInt)

lemma deadline_live:
  "(case deadline now store key a of None \<Rightarrow> True | Some t \<Rightarrow> now \<le> t)"
  by (cases a) (auto simp: deadline_def live_def split: option.splits if_splits)

lemma SetCache_Up:
  "\<exists>data. Marshal u = Inr data
     \<and> SetCache Up now store key u expiration
         = (None, store(key \<mapsto> \<lparr>payload = data,
                                 expires = deadline now store key (ttl_arg expiration)\<rparr>))"
  by (simp add: SetCache_def Marshal_def client_Set_def)

lemma SetCache_live:
  "\<exists>en. live now (snd (SetCache Up now store key u expiration)) key = Some en"
proof -
  from SetCache_Up [of u now store key expiration] obtain data where
    s: "SetCache Up now store key u expiration
         = (None, store(key \<mapsto> \<lparr>payload = data,
                                 expires = deadline now store key (ttl_arg expiration)\<rparr>))"
    by blast
  show ?thesis
    using deadline_live [of now store key "ttl_arg expiration"]
    by (simp add: s live_def split: option.splits)
qed

lemma GetCache_after_SetCache:
  assumes "live now' (snd (SetCache Up now store key u expiration)) key \<noteq> None"
  shows "GetCache Up now' (snd (SetCache Up now store key u expiration)) key dest
    = (True, None, \<lparr>ID = ID u, Username = coerce_utf8 (Username u), Email = coerce_utf8 (Email u),
              CreatedAt = coerce_utf8 (CreatedAt u), UpdatedAt = coerce_utf8 (UpdatedAt u)\<rparr>)"
proof -
  from SetCache_Up [of u now store key expiration] obtain data where
    m: "Marshal u = Inr data" and
    s: "SetCache Up now store key u expiration
         = (None, store(key \<mapsto> \<lparr>payload = data,
                                 expires = deadline now store key (ttl_arg expiration)\<rparr>))"
    by blast
  from assms have "live now' (snd (SetCache Up now store key u expiration)) key
      = Some \<lparr>payload = data, expires = deadline now store key (ttl_arg expiration)\<rparr>"
    by (simp add: s live_def split: option.splits if_splits)
  then show ?thesis
    by (simp add: GetCache_def client_Get_def Unmarshal_Marshal [OF m])
qed

section \<open>The cached record\<close>

lemma FormatInt_decimal:
  "\<exists>ds. FormatInt i = (if i < 0 then ''-'' else '''') @ ds
      \<and> ds \<noteq> [] \<and> list_all is_digit ds \<and> int (dec_val ds) = \<bar>i\<bar>
      \<and> (ds = ''0'' \<or> hd ds \<noteq> CHR ''0'')"
proof (cases "i < 0")
  case True
  then show ?thesis
    using digits_no_leading_zero [of "nat (- i)"]
    by (intro exI [of _ "digits (nat (- i))"])
       (simp add: FormatInt_def digits_not_Nil digits_list_all dec_val_digits)
next
  case False
  then show ?thesis
    using digits_no_leading_zero [of "nat i"]
    by (intro exI [of _ "digits (nat i)"])
       (simp add: FormatInt_def digits_not_Nil digits_list_all dec_val_digits)
qed

lemma valid_zoe: "ValidString (''Zo'' @ [CHR 0xC3, CHR 0xA9])"
  by (simp add: ValidString_def bad_rune_def byte_def Let_def accept_lo_def accept_hi_def
      RuneError_def)

lemma coerce_ff: "coerce_utf8 [CHR 0xFF] = [CHR 0xEF, CHR 0xBF, CHR 0xBD]"
proof -
  have c: "char_of (239 :: nat) = CHR 0xEF" "char_of (191 :: nat) = CHR 0xBF"
    "char_of (189 :: nat) = CHR 0xBD"
    by code_simp+
  show ?thesis
    by (simp add: coerce_utf8_def byte_def Let_def EncodeRune_def RuneError_def c)
qed

text \<open>
  C8. The cache key of an identity is \<^verbatim>\<open>user:\<close> followed by its decimal numeral: a
  minus sign for a negative identity, then digits with no leading zero whose value is
  the magnitude. \<open>SetCache\<close> stores under the key the bytes \<open>Marshal\<close> gives for
  the record, and these are a JSON object with exactly the members \<^verbatim>\<open>id\<close>,
  \<^verbatim>\<open>username\<close>, \<^verbatim>\<open>email\<close>, \<^verbatim>\<open>created_at\<close>, \<^verbatim>\<open>updated_at\<close>, in this order, holding the
  record's fields.
\<close>

theorem cache_key_and_value:
  "GetUserCacheKey i = ''user:'' @ FormatInt (sint i)
   \<and> (\<exists>ds. FormatInt (sint i) = (if sint i < 0 then ''-'' else '''') @ ds
         \<and> ds \<noteq> [] \<and> list_all is_digit ds \<and> int (dec_val ds) = \<bar>sint i\<bar>
         \<and> (ds = ''0'' \<or> hd ds \<noteq> CHR ''0''))
   \<and> fst (SetCache Up now store key u expiration) = None
   \<and> (\<exists>en. snd (SetCache Up now store key u expiration) key = Some en
         \<and> Marshal u = Inr (payload en)
         \<and> json_parse (payload en)
             = Some (JObject
                 [(''id'', JNumber (FormatInt (sint (ID u)))),
                  (''username'', JString (coerce_utf8 (Username u))),
                  (''email'', JString (coerce_utf8 (Email u))),
                  (''created_at'', JString (coerce_utf8 (CreatedAt u))),
                  (''updated_at'', JString (coerce_utf8 (UpdatedAt u)))]))"
proof -
  from SetCache_Up [of u now store key expiration] obtain data where
    m: "Marshal u = Inr data" and
    s: "SetCache Up now store key u expiration
         = (None, store(key \<mapsto> \<lparr>payload = data,
                                 expires = deadline now store key (ttl_arg expiration)\<rparr>))"
    by blast
  have "\<exists>en. snd (SetCache Up now store key u expiration) key = Some en
         \<and> Marshal u = Inr (payload en)
         \<and> json_parse (payload en)
             = Some (JObject
                 [(''id'', JNumber (FormatInt (sint (ID u)))),
                  (''username'', JString (coerce_utf8 (Username u))),
                  (''email'', JString (coerce_utf8 (Email u))),
                  (''created_at'', JString (coerce_utf8 (CreatedAt u))),
                  (''updated_at'', JString (coerce_utf8 (UpdatedAt u)))])"
    using m json_parse_Marshal [OF m] by (simp add: s)
  with FormatInt_decimal [of "sint i"] s show ?thesis
    by (simp add: GetUserCacheKey_def)
qed

text \<open>
  C9, as the code has it. \<^verbatim>\<open>json.Marshal\<close> writes a byte that is not valid UTF-8 as
  U+FFFD, so the round trip is the identity on the records whose strings are valid
  UTF-8: for such a record, \<open>SetCache\<close> succeeds, and \<open>GetCache\<close> on the same key,
  at once or at any later time at which the entry has not expired, succeeds and leaves
  in the destination the record that was stored.
\<close>

theorem SetCache_GetCache_round_trip:
  "ValidString (Username u) \<Longrightarrow> ValidString (Email u) \<Longrightarrow>
   ValidString (CreatedAt u) \<Longrightarrow> ValidString (UpdatedAt u) \<Longrightarrow>
     fst (SetCache Up now store key u expiration) = None
   \<and> GetCache Up now (snd (SetCache Up now store key u expiration)) key dest = (True, None, u)
   \<and> (live now' (snd (SetCache Up now store key u expiration)) key \<noteq> None \<longrightarrow>
        GetCache Up now' (snd (SetCache Up now store key u expiration)) key dest
          = (True, None, u))"
proof -
  assume v: "ValidString (Username u)" "ValidString (Email u)"
    "ValidString (CreatedAt u)" "ValidString (UpdatedAt u)"
  have same: "\<lparr>ID = ID u, Username = coerce_utf8 (Username u), Email = coerce_utf8 (Email u),
      CreatedAt = coerce_utf8 (CreatedAt u), UpdatedAt = coerce_utf8 (UpdatedAt u)\<rparr> = u"
    using v by (simp add: coerce_utf8_valid)
  from SetCache_live [of now store key u expiration]
  have l: "live now (snd (SetCache Up now store key u expiration)) key \<noteq> None"
    by auto
  have 1: "fst (SetCache Up now store key u expiration) = None"
    using SetCache_Up [of u now store key expiration] by auto
  show ?thesis
    using 1 GetCache_after_SetCache [OF l, of dest]
      GetCache_after_SetCache [of now' now store key u expiration dest]
    by (simp add: same)
qed

theorem SetCache_GetCache_round_trip_witness:
  "ValidString (''Zo'' @ [CHR 0xC3, CHR 0xA9]) \<and> ValidString ''zoe@x.com''
   \<and> ValidString ''2024-05-01T09:00:00Z''
   \<and> GetCache Up 7
        (snd (SetCache Up 7 Map.empty ''user:3''
           \<lparr>ID = 3, Username = ''Zo'' @ [CHR 0xC3, CHR 0xA9], Email = ''zoe@x.com'',
             CreatedAt = ''2024-05-01T09:00:00Z'', UpdatedAt = ''2024-05-01T09:00:00Z''\<rparr>
           300000000000))
        ''user:3''
        \<lparr>ID = 0, Username = '''', Email = '''', CreatedAt = '''', UpdatedAt = ''''\<rparr>
     = (True, None,
        \<lparr>ID = 3, Username = ''Zo'' @ [CHR 0xC3, CHR 0xA9], Email = ''zoe@x.com'',
          CreatedAt = ''2024-05-01T09:00:00Z'', UpdatedAt = ''2024-05-01T09:00:00Z''\<rparr>)"
proof -
  let ?u = "\<lparr>ID = 3, Username = ''Zo'' @ [CHR 0xC3, CHR 0xA9], Email = ''zoe@x.com'',
             CreatedAt = ''2024-05-01T09:00:00Z'', UpdatedAt = ''2024-05-01T09:00:00Z''\<rparr>"
  have v: "ValidString (Username ?u)" "ValidString (Email ?u)"
    "ValidString (CreatedAt ?u)" "ValidString (UpdatedAt ?u)"
    using valid_zoe by (simp_all add: ValidString_ascii byte_def)
  from SetCache_GetCache_round_trip [OF v, of 7 Map.empty "''user:3''" 300000000000
      "\<lparr>ID = 0, Username = '''', Email = '''', CreatedAt = '''', UpdatedAt = ''''\<rparr>"] v
  show ?thesis by simp
qed

text \<open>
  The claim as written, for every record, fails at a user name that is the single byte
  \<^verbatim>\<open>0xFF\<close>: \<open>GetCache\<close> succeeds, and the user name read back is the three bytes of
  U+FFFD.
\<close>

theorem round_trip_invalid_utf8:
  "GetCache Up 7
        (snd (SetCache Up 7 Map.empty ''user:3''
           \<lparr>ID = 3, Username = [CHR 0xFF], Email = ''zoe@x.com'',
             CreatedAt = ''2024-05-01T09:00:00Z'', UpdatedAt = ''2024-05-01T09:00:00Z''\<rparr>
           300000000000))
        ''user:3''
        \<lparr>ID = 0, Username = '''', Email = '''', CreatedAt = '''', UpdatedAt = ''''\<rparr>
     = (True, None,
        \<lparr>ID = 3, Username = [CHR 0xEF, CHR 0xBF, CHR 0xBD], Email = ''zoe@x.com'',
          CreatedAt = ''2024-05-01T09:00:00Z'', UpdatedAt = ''2024-05-01T09:00:00Z''\<rparr>)
   \<and> [CHR 0xEF, CHR 0xBF, CHR 0xBD] \<noteq> [CHR 0xFF]"
proof -
  let ?u = "\<lparr>ID = 3, Username = [CHR 0xFF], Email = ''zoe@x.com'',
             CreatedAt = ''2024-05-01T09:00:00Z'', UpdatedAt = ''2024-05-01T09:00:00Z''\<rparr>"
  have l: "live 7 (snd (SetCache Up 7 Map.empty ''user:3'' ?u 300000000000)) ''user:3'' \<noteq> None"
    using SetCache_live [of 7 Map.empty "''user:3''" ?u 300000000000] by auto
  have a: "coerce_utf8 ''zoe@x.com'' = ''zoe@x.com''"
    "coerce_utf8 ''2024-05-01T09:00:00Z'' = ''2024-05-01T09:00:00Z''"
    by (simp_all add: coerce_utf8_valid ValidString_ascii byte_def)
  from GetCache_after_SetCache [OF l] show ?thesis
    by (simp add: a coerce_ff)
qed

end
